theory Spec2Isabelle
  imports Main "HOL-Library.AList"
begin

section \<open>Text and path helpers of the Python runtime\<close>

text \<open>
  Python text is modelled as \<open>string\<close>; a \<open>char\<close> stands for a code point below 256
  (the range in which HTTP header values arrive). Byte contents are lists of \<open>char\<close> too.
\<close>

type_synonym bytes = string

text \<open>\<^verbatim>\<open>str.isspace\<close> on code points below 256, as used by \<^verbatim>\<open>str.strip()\<close>.\<close>

definition isspace :: "char \<Rightarrow> bool" where
  "isspace c = ((of_char c :: nat) \<in> {9, 10, 11, 12, 13, 28, 29, 30, 31, 32, 133, 160})"

definition strip :: "string \<Rightarrow> string" where
  "strip s = rev (dropWhile isspace (rev (dropWhile isspace s)))"

text \<open>\<^verbatim>\<open>str.lower()\<close> on code points below 256: A-Z and the accented capitals 192-222 but 215.\<close>

definition upper_chars :: string where
  "upper_chars = ''ABCDEFGHIJKLMNOPQRSTUVWXYZ'' @
     [CHR 0xC0, CHR 0xC1, CHR 0xC2, CHR 0xC3, CHR 0xC4, CHR 0xC5, CHR 0xC6, CHR 0xC7,
      CHR 0xC8, CHR 0xC9, CHR 0xCA, CHR 0xCB, CHR 0xCC, CHR 0xCD, CHR 0xCE, CHR 0xCF,
      CHR 0xD0, CHR 0xD1, CHR 0xD2, CHR 0xD3, CHR 0xD4, CHR 0xD5, CHR 0xD6, CHR 0xD8,
      CHR 0xD9, CHR 0xDA, CHR 0xDB, CHR 0xDC, CHR 0xDD, CHR 0xDE]"

definition lower_chars :: string where
  "lower_chars = ''abcdefghijklmnopqrstuvwxyz'' @
     [CHR 0xE0, CHR 0xE1, CHR 0xE2, CHR 0xE3, CHR 0xE4, CHR 0xE5, CHR 0xE6, CHR 0xE7,
      CHR 0xE8, CHR 0xE9, CHR 0xEA, CHR 0xEB, CHR 0xEC, CHR 0xED, CHR 0xEE, CHR 0xEF,
      CHR 0xF0, CHR 0xF1, CHR 0xF2, CHR 0xF3, CHR 0xF4, CHR 0xF5, CHR 0xF6, CHR 0xF8,
      CHR 0xF9, CHR 0xFA, CHR 0xFB, CHR 0xFC, CHR 0xFD, CHR 0xFE]"

definition lower_char :: "char \<Rightarrow> char" where
  "lower_char c = (case map_of (zip upper_chars lower_chars) c of None \<Rightarrow> c | Some d \<Rightarrow> d)"

definition lower :: "string \<Rightarrow> string" where
  "lower s = map lower_char s"

text \<open>The substring test \<^verbatim>\<open>sub in s\<close>.\<close>

fun str_in :: "string \<Rightarrow> string \<Rightarrow> bool" where
  "str_in sub [] = (sub = [])"
| "str_in sub (c # cs) = (take (length sub) (c # cs) = sub \<or> str_in sub cs)"

text \<open>\<^verbatim>\<open>os.path.basename\<close> (POSIX): what follows the last slash.\<close>

definition basename :: "string \<Rightarrow> string" where
  "basename p = rev (takeWhile (\<lambda>c. c \<noteq> CHR ''/'') (rev p))"

text \<open>
  \<^verbatim>\<open>os.path.splitext\<close> (POSIX): the extension starts at the last dot of the last path
  component, unless only dots precede it in that component.
\<close>

definition splitext :: "string \<Rightarrow> string \<times> string" where
  "splitext p =
     (let name = basename p;
          tail = rev (takeWhile (\<lambda>c. c \<noteq> CHR ''.'') (rev name));
          stem = take (length name - length tail - 1) name
      in if CHR ''.'' \<in> set name \<and> (\<exists>c \<in> set stem. c \<noteq> CHR ''.'')
         then (take (length p - length tail - 1) p, CHR ''.'' # tail)
         else (p, []))"

text \<open>\<^verbatim>\<open>os.path.join(d, f)\<close> for a file name \<open>f\<close> that does not start with a slash.\<close>

definition join :: "string \<Rightarrow> string \<Rightarrow> string" where
  "join d f = d @ ''/'' @ f"

text \<open>\<^verbatim>\<open>str(n)\<close> for a non-negative counter, and its inverse on digit strings.\<close>

definition digit_char :: "nat \<Rightarrow> char" where
  "digit_char d = ''0123456789'' ! d"

fun str_nat :: "nat \<Rightarrow> string" where
  "str_nat n = (if n < 10 then [digit_char n] else str_nat (n div 10) @ [digit_char (n mod 10)])"

declare str_nat.simps [simp del]

definition digit_val :: "char \<Rightarrow> nat option" where
  "digit_val c =
     (let n = (of_char c :: nat) in if 48 \<le> n \<and> n \<le> 57 then Some (n - 48) else None)"

text \<open>
  \<^verbatim>\<open>int(s)\<close> in base 10. The whitespace it skips on both sides is not that of
  \<^verbatim>\<open>str.strip()\<close>: it is tab, line feed, vertical tab, form feed, carriage return and
  space, and of the code points from 128 on the Unicode spaces (133 and 160 below 256);
  the separators 28 to 31 are not skipped. One sign is allowed, digits may be grouped by
  single underscores. A string with more than \<^verbatim>\<open>sys.get_int_max_str_digits()\<close> digits is
  refused (4300 unless the interpreter is told otherwise; sign and underscores do not
  count, leading zeros do). \<open>None\<close> stands for \<^verbatim>\<open>ValueError\<close>.
\<close>

definition int_space :: "char \<Rightarrow> bool" where
  "int_space c = ((of_char c :: nat) \<in> {9, 10, 11, 12, 13, 32, 133, 160})"

definition int_strip :: "string \<Rightarrow> string" where
  "int_strip s = rev (dropWhile int_space (rev (dropWhile int_space s)))"

definition int_max_str_digits :: nat where
  "int_max_str_digits = 4300"

fun parse_digits :: "nat \<Rightarrow> string \<Rightarrow> nat option" where
  "parse_digits acc [] = Some acc"
| "parse_digits acc [c] =
     (case digit_val c of None \<Rightarrow> None | Some v \<Rightarrow> Some (10 * acc + v))"
| "parse_digits acc (c # d # ds) =
     (if c = CHR ''_''
      then (case digit_val d of None \<Rightarrow> None | Some v \<Rightarrow> parse_digits (10 * acc + v) ds)
      else (case digit_val c of None \<Rightarrow> None | Some v \<Rightarrow> parse_digits (10 * acc + v) (d # ds)))"

definition parse_nat :: "string \<Rightarrow> nat option" where
  "parse_nat s =
     (if int_max_str_digits < length (filter (\<lambda>c. digit_val c \<noteq> None) s) then None
      else (case s of [] \<Rightarrow> None
            | c # cs \<Rightarrow> (case digit_val c of None \<Rightarrow> None | Some v \<Rightarrow> parse_digits v cs)))"

definition py_int :: "string \<Rightarrow> int option" where
  "py_int s =
     (case int_strip s of
        [] \<Rightarrow> None
      | c # cs \<Rightarrow>
          if c = CHR ''-'' then map_option (\<lambda>n. - int n) (parse_nat cs)
          else if c = CHR ''+'' then map_option int (parse_nat cs)
          else map_option int (parse_nat (c # cs)))"

definition digits_val :: "string \<Rightarrow> nat" where
  "digits_val s =
     foldl (\<lambda>a c. 10 * a + (case digit_val c of None \<Rightarrow> 0 | Some v \<Rightarrow> v)) 0 s"

text \<open>The name probed for a counter: \<^verbatim>\<open>f"{base_name}_{counter}{extension}"\<close>.\<close>

definition candidate :: "string \<Rightarrow> string \<Rightarrow> nat \<Rightarrow> string" where
  "candidate base_name extension counter = base_name @ ''_'' @ str_nat counter @ extension"

lemma digit_cases: "d < (10::nat) \<Longrightarrow> d \<in> {0, 1, 2, 3, 4, 5, 6, 7, 8, 9}"
  by auto

lemma digit_val_digit_char: "d < 10 \<Longrightarrow> digit_val (digit_char d) = Some d"
  using digit_cases [of d] by (auto simp: digit_val_def digit_char_def)

lemma digits_val_str_nat: "digits_val (str_nat n) = n"
proof (induction n rule: str_nat.induct)
  case (1 n)
  show ?case
  proof (cases "n < 10")
    case True
    then show ?thesis
      by (simp add: str_nat.simps [of n] digit_val_digit_char digits_val_def)
  next
    case False
    with "1.IH" have "digits_val (str_nat (n div 10)) = n div 10" by simp
    with False show ?thesis
      by (simp add: str_nat.simps [of n] digit_val_digit_char digits_val_def)
  qed
qed

lemma str_nat_inj: "str_nat m = str_nat n \<Longrightarrow> m = n"
  by (metis digits_val_str_nat)

lemma candidate_inj: "candidate b e m = candidate b e n \<Longrightarrow> m = n"
  by (simp add: candidate_def str_nat_inj)

section \<open>The environment: network, disk and library functions\<close>

text \<open>
  What \<^verbatim>\<open>requests.get\<close> hands back after a successful exchange. The header names are
  looked up without regard to case, as \<^verbatim>\<open>response.headers\<close> does. \<open>url\<close> is the final
  address \<^verbatim>\<open>response.url\<close>. \<open>content\<close> is the body that \<^verbatim>\<open>response.content\<close> reads on
  demand (the request is made with \<^verbatim>\<open>stream=True\<close>); \<open>None\<close> stands for a body whose
  transfer raises a \<^verbatim>\<open>RequestException\<close>.
\<close>

record response =
  status_code :: nat
  headers :: "(string \<times> string) list"
  url :: string
  content :: "bytes option"

text \<open>\<^verbatim>\<open>response.raise_for_status()\<close> raises for the status codes 400 to 599.\<close>

definition raises_for_status :: "response \<Rightarrow> bool" where
  "raises_for_status r = (400 \<le> status_code r \<and> status_code r < 600)"

definition headers_get :: "response \<Rightarrow> string \<Rightarrow> string option" where
  "headers_get r k = map_of (map (\<lambda>(a, b). (lower a, b)) (headers r)) (lower k)"

text \<open>The three ways \<^verbatim>\<open>open(path, 'wb')\<close> followed by \<^verbatim>\<open>f.write(content)\<close> can end.\<close>

datatype write_result = WriteOk | OpenFails | WriteFails bytes

text \<open>
  The environment of a run. \<open>md5\<close> is \<^verbatim>\<open>hashlib.md5(_).hexdigest()\<close> and \<open>urlparse_path\<close> is
  \<^verbatim>\<open>urlparse(_).path\<close>; both are library functions and stay parameters (\<^verbatim>\<open>urlparse\<close> is
  taken to return for every address that \<^verbatim>\<open>requests\<close> has accepted). \<open>web\<close> answers the
  \<open>n\<close>-th request of the run (\<open>None\<close>: \<^verbatim>\<open>requests.get\<close> raises), \<open>disk\<close> decides how the
  write of the \<open>n\<close>-th request ends, \<open>mkdir_ok\<close> whether the directory can be created.
\<close>

record env =
  md5 :: "bytes \<Rightarrow> string"
  urlparse_path :: "string \<Rightarrow> string"
  web :: "nat \<Rightarrow> string \<Rightarrow> response option"
  disk :: "nat \<Rightarrow> string \<Rightarrow> bytes \<Rightarrow> write_result"
  mkdir_ok :: bool

text \<open>
  The collection directory: absent, a directory (that \<^verbatim>\<open>os.listdir\<close> can or cannot list),
  or something that is not a directory. Its entries are kept by name; a regular file
  carries its bytes and whether it can be opened for reading.
\<close>

datatype root_kind = Absent | Directory bool | NotADirectory

datatype entry = RegularFile bytes bool | SubDirectory

record filesys =
  root :: root_kind
  entries :: "(string \<times> entry) list"

text \<open>
  The names that exist in a directory: those of its entries, and \<^verbatim>\<open>.\<close> and \<^verbatim>\<open>..\<close>, which
  \<^verbatim>\<open>os.listdir\<close> leaves out but \<^verbatim>\<open>os.path.exists\<close> finds.
\<close>

definition present_names :: "filesys \<Rightarrow> string list" where
  "present_names fsys = ''.'' # ''..'' # map fst (entries fsys)"

definition exists_in :: "filesys \<Rightarrow> string \<Rightarrow> bool" where
  \<comment> \<open>\<^verbatim>\<open>os.path.exists(os.path.join(download_dir, name))\<close>\<close>
  "exists_in fsys name =
     (case root fsys of
        Directory l \<Rightarrow> name \<in> set (present_names fsys)
      | _ \<Rightarrow> False)"

definition put_file :: "filesys \<Rightarrow> string \<Rightarrow> bytes \<Rightarrow> filesys" where
  "put_file fsys name c = fsys\<lparr>entries := AList.update name (RegularFile c True) (entries fsys)\<rparr>"

section \<open>Outcomes and the observable trace\<close>

text \<open>
  \<^verbatim>\<open>download_single_image\<close> returns a \<^verbatim>\<open>bool\<close>; which of its \<^verbatim>\<open>return\<close> statements was
  taken shows in the line it prints before. The model returns that branch, and
  \<open>returned\<close> gives the \<^verbatim>\<open>bool\<close>.
\<close>

datatype outcome =
    Accepted string
  | Duplicate
  | TooLarge
  | UnsafeType
  | ConnectionError
  | ErrorOccurred

fun returned :: "outcome \<Rightarrow> bool" where
  "returned (Accepted p) = True"
| "returned Duplicate = True"
| "returned TooLarge = False"
| "returned UnsafeType = False"
| "returned ConnectionError = False"
| "returned ErrorOccurred = False"

text \<open>
  What a run does to the outside, in the order it happens: the directory listing and
  creation of the startup, and per download the request, the read of the body, the
  completed write of a file and the branch that is reported.
\<close>

datatype event =
    ListedDir
  | MadeDirs
  | Connecting string
  | BodyRead
  | FileWritten string bytes
  | Reported outcome

text \<open>
  The fetcher object (\<open>downloaded_hashes\<close>) together with the state of the world it
  acts on: the directory, the number of requests made so far, and the trace.
\<close>

record fetcher =
  downloaded_hashes :: "string set"
  fs :: filesys
  clock :: nat
  trace :: "event list"

definition download_dir :: string where
  "download_dir = ''Fetched_Images''"

datatype startup_error = ListDirError | MakeDirsError

section \<open>The fetcher\<close>

subsection \<open>Startup\<close>

text \<open>The body of the loop of \<^verbatim>\<open>load_existing_hashes\<close>: one directory entry.\<close>

fun scan_entry :: "env \<Rightarrow> string set \<Rightarrow> string \<times> entry \<Rightarrow> string set" where
  "scan_entry E hs (name, RegularFile c readable) = (if readable then insert (md5 E c) hs else hs)"
| "scan_entry E hs (name, SubDirectory) = hs"

text \<open>
  \<^verbatim>\<open>os.listdir\<close> is not guarded by the \<^verbatim>\<open>try\<close>: when it raises, so does the constructor.
\<close>

definition load_existing_hashes :: "env \<Rightarrow> fetcher \<Rightarrow> startup_error + fetcher" where
  "load_existing_hashes E st =
     (case root (fs st) of
        Absent \<Rightarrow> Inr st
      | NotADirectory \<Rightarrow> Inl ListDirError
      | Directory listable \<Rightarrow>
          if listable
          then Inr (st\<lparr>downloaded_hashes :=
                          foldl (scan_entry E) (downloaded_hashes st) (entries (fs st)),
                        trace := trace st @ [ListedDir]\<rparr>)
          else Inl ListDirError)"

definition UbuntuImageFetcher :: "env \<Rightarrow> filesys \<Rightarrow> startup_error + fetcher" where
  "UbuntuImageFetcher E fsys =
     load_existing_hashes E \<lparr>downloaded_hashes = {}, fs = fsys, clock = 0, trace = []\<rparr>"

text \<open>\<^verbatim>\<open>os.makedirs(download_dir, exist_ok=True)\<close>; a directory it creates is empty.\<close>

definition makedirs :: "env \<Rightarrow> fetcher \<Rightarrow> startup_error + fetcher" where
  "makedirs E st =
     (case root (fs st) of
        Directory l \<Rightarrow> Inr (st\<lparr>trace := trace st @ [MadeDirs]\<rparr>)
      | NotADirectory \<Rightarrow> Inl MakeDirsError
      | Absent \<Rightarrow>
          if mkdir_ok E
          then Inr (st\<lparr>fs := \<lparr>root = Directory True, entries = []\<rparr>,
                        trace := trace st @ [MadeDirs]\<rparr>)
          else Inl MakeDirsError)"

text \<open>The first two statements of \<^verbatim>\<open>main\<close>: construct the fetcher, then create the directory.\<close>

definition main_startup :: "env \<Rightarrow> filesys \<Rightarrow> startup_error + fetcher" where
  "main_startup E fsys =
     (case UbuntuImageFetcher E fsys of
        Inl e \<Rightarrow> Inl e
      | Inr st \<Rightarrow> makedirs E st)"

subsection \<open>Checks on a response\<close>

definition get_file_hash :: "env \<Rightarrow> bytes \<Rightarrow> string" where
  "get_file_hash E c = md5 E c"

definition is_duplicate :: "env \<Rightarrow> fetcher \<Rightarrow> bytes \<Rightarrow> bool" where
  "is_duplicate E st c = (get_file_hash E c \<in> downloaded_hashes st)"

definition safe_types :: "string list" where
  "safe_types = [''image/jpeg'', ''image/jpg'', ''image/png'',
                 ''image/gif'', ''image/webp'', ''image/bmp'']"

definition safe_extensions :: "string list" where
  "safe_extensions = [''.jpg'', ''.jpeg'', ''.png'', ''.gif'', ''.webp'', ''.bmp'']"

definition is_safe_file_type :: "env \<Rightarrow> response \<Rightarrow> bool" where
  "is_safe_file_type E r =
     (let content_type =
            lower (case headers_get r ''content-type'' of None \<Rightarrow> [] | Some v \<Rightarrow> v)
      in if content_type \<noteq> [] \<and> \<not> list_ex (\<lambda>st. str_in st content_type) safe_types
         then False
         else (let file_extension = lower (snd (splitext (urlparse_path E (url r))))
               in if file_extension \<noteq> [] \<and> file_extension \<notin> set safe_extensions
                  then False
                  else True))"

text \<open>
  The condition of the size check, \<^verbatim>\<open>content_length and int(content_length) > 10 * 1024 * 1024\<close>:
  \<open>None\<close> when \<^verbatim>\<open>int\<close> raises. An absent header and an empty value are both falsy, and
  \<^verbatim>\<open>int\<close> is not called for them.
\<close>

definition content_length_too_large :: "response \<Rightarrow> bool option" where
  "content_length_too_large r =
     (case headers_get r ''content-length'' of
        None \<Rightarrow> Some False
      | Some v \<Rightarrow>
          if v = [] then Some False
          else (case py_int v of
                  None \<Rightarrow> None
                | Some n \<Rightarrow> Some (n > 10 * 1024 * 1024)))"

definition get_filename_from_url :: "env \<Rightarrow> string \<Rightarrow> response \<Rightarrow> string" where
  "get_filename_from_url E u r =
     (let filename = basename (urlparse_path E u)
      in if filename = [] \<or> CHR ''.'' \<notin> set filename
         then (let content_type =
                     (case headers_get r ''content-type'' of
                        None \<Rightarrow> ''image/jpeg'' | Some v \<Rightarrow> v);
                   extension =
                     (if str_in ''jpeg'' content_type \<or> str_in ''jpg'' content_type then ''.jpg''
                      else if str_in ''png'' content_type then ''.png''
                      else if str_in ''gif'' content_type then ''.gif''
                      else if str_in ''webp'' content_type then ''.webp''
                      else ''.jpg'')
               in ''downloaded_image'' @ extension)
         else filename)"

subsection \<open>A free file name\<close>

lemma finite_taken: "finite {k. exists_in fsys (candidate b e k)}"
proof -
  have "{k. exists_in fsys (candidate b e k)} \<subseteq> candidate b e -` set (present_names fsys)"
    by (cases "root fsys") (auto simp: exists_in_def)
  moreover have "finite (candidate b e -` set (present_names fsys))"
    by (rule finite_vimageI) (auto simp: inj_on_def dest: candidate_inj)
  ultimately show ?thesis by (rule finite_subset)
qed

text \<open>
  The loop \<^verbatim>\<open>while os.path.exists(filepath)\<close> of \<^verbatim>\<open>download_single_image\<close>, over the file
  name and the counter; it is entered with the derived file name and the counter 1.
\<close>

function unique_filename :: "filesys \<Rightarrow> string \<Rightarrow> string \<Rightarrow> string \<Rightarrow> nat \<Rightarrow> string" where
  "unique_filename fsys base_name extension filename counter =
     (if exists_in fsys filename
      then unique_filename fsys base_name extension
             (candidate base_name extension counter) (counter + 1)
      else filename)"
  by pat_completeness auto
termination
proof (relation "measure (\<lambda>(fsys, b, e, f, c).
         2 * card {k. c \<le> k \<and> exists_in fsys (candidate b e k)}
         + (if exists_in fsys f then 1 else 0))")
  show "wf (measure (\<lambda>(fsys, b, e, f, c).
         2 * card {k. c \<le> k \<and> exists_in fsys (candidate b e k)}
         + (if exists_in fsys f then 1 else 0)))" by simp
next
  fix fsys :: filesys and base_name extension filename :: string and counter :: nat
  assume ex: "exists_in fsys filename"
  let ?A = "\<lambda>c. {k. c \<le> k \<and> exists_in fsys (candidate base_name extension k)}"
  have fin: "finite (?A counter)"
    by (rule finite_subset [OF _ finite_taken [of fsys base_name extension]]) auto
  show "((fsys, base_name, extension, candidate base_name extension counter, counter + 1),
         (fsys, base_name, extension, filename, counter)) \<in> measure (\<lambda>(fsys, b, e, f, c).
         2 * card {k. c \<le> k \<and> exists_in fsys (candidate b e k)}
         + (if exists_in fsys f then 1 else 0))"
  proof (cases "exists_in fsys (candidate base_name extension counter)")
    case True
    have "?A (counter + 1) = ?A counter - {counter}" by auto
    moreover have "counter \<in> ?A counter" using True by simp
    ultimately have "card (?A (counter + 1)) < card (?A counter)"
      using fin by (metis card_Diff1_less)
    then show ?thesis using ex True by simp
  next
    case False
    have "?A (counter + 1) = ?A counter"
      using False by (auto simp: Suc_le_eq) (metis le_neq_implies_less)
    then show ?thesis using ex False by simp
  qed
qed

declare unique_filename.simps [simp del]

subsection \<open>One download\<close>

definition report :: "fetcher \<Rightarrow> outcome \<Rightarrow> outcome \<times> fetcher" where
  "report st res = (res, st\<lparr>trace := trace st @ [Reported res]\<rparr>)"

text \<open>
  The tail of \<^verbatim>\<open>download_single_image\<close> for a body that is no duplicate: derive the file
  name, find a free one, write the file, add the hash. A failed \<^verbatim>\<open>open\<close> or \<^verbatim>\<open>write\<close> raises
  \<^verbatim>\<open>OSError\<close>, which the handler of \<^verbatim>\<open>Exception\<close> reports; a failed \<^verbatim>\<open>write\<close> leaves the file
  behind with what had been written. The hash is added only after the write.
\<close>

definition save_image :: "env \<Rightarrow> fetcher \<Rightarrow> nat \<Rightarrow> string \<Rightarrow> response \<Rightarrow> bytes \<Rightarrow> outcome \<times> fetcher" where
  "save_image E st n u r c =
     (let filename = get_filename_from_url E u r;
          (base_name, extension) = splitext filename;
          filename' = unique_filename (fs st) base_name extension filename 1;
          filepath = join download_dir filename'
      in case (case root (fs st) of
                 Directory l \<Rightarrow> disk E n filepath c
               | _ \<Rightarrow> OpenFails) of
           OpenFails \<Rightarrow> report st ErrorOccurred
         | WriteFails part \<Rightarrow>
             report (st\<lparr>fs := put_file (fs st) filename' part\<rparr>) ErrorOccurred
         | WriteOk \<Rightarrow>
             report (st\<lparr>fs := put_file (fs st) filename' c,
                         downloaded_hashes := insert (get_file_hash E c) (downloaded_hashes st),
                         trace := trace st @ [FileWritten filepath c]\<rparr>)
                    (Accepted filepath))"

text \<open>
  The fetcher once the request has been issued (\<^verbatim>\<open>requests.get\<close>, the next request gets
  the next number), and once the body has been asked for (\<^verbatim>\<open>response.content\<close>).
\<close>

definition connecting :: "fetcher \<Rightarrow> string \<Rightarrow> fetcher" where
  "connecting st u = st\<lparr>clock := Suc (clock st), trace := trace st @ [Connecting u]\<rparr>"

definition reading_body :: "fetcher \<Rightarrow> fetcher" where
  "reading_body st = st\<lparr>trace := trace st @ [BodyRead]\<rparr>"

definition download_single_image :: "env \<Rightarrow> fetcher \<Rightarrow> string \<Rightarrow> outcome \<times> fetcher" where
  "download_single_image E st u =
     (let st1 = connecting st u
      in case web E (clock st) u of
           None \<Rightarrow> report st1 ConnectionError
         | Some r \<Rightarrow>
             if raises_for_status r then report st1 ConnectionError
             else (case content_length_too_large r of
                     None \<Rightarrow> report st1 ErrorOccurred
                   | Some True \<Rightarrow> report st1 TooLarge
                   | Some False \<Rightarrow>
                       if \<not> is_safe_file_type E r then report st1 UnsafeType
                       else (let st2 = reading_body st1
                             in case content r of
                                  None \<Rightarrow> report st2 ConnectionError
                                | Some c \<Rightarrow>
                                    if is_duplicate E st2 c then report st2 Duplicate
                                    else save_image E st2 (clock st) u r c)))"

subsection \<open>Many downloads\<close>

fun download_loop :: "env \<Rightarrow> fetcher \<Rightarrow> nat \<Rightarrow> string list \<Rightarrow> nat \<times> fetcher" where
  "download_loop E st successful_downloads [] = (successful_downloads, st)"
| "download_loop E st successful_downloads (line # urls) =
     (let u = strip line
      in if u \<noteq> []
         then (let (res, st') = download_single_image E st u
               in download_loop E st'
                    (if returned res then successful_downloads + 1 else successful_downloads)
                    urls)
         else download_loop E st successful_downloads urls)"

definition download_multiple_images :: "env \<Rightarrow> fetcher \<Rightarrow> string list \<Rightarrow> nat \<times> fetcher" where
  "download_multiple_images E st urls = download_loop E st 0 urls"

subsection \<open>The menu\<close>

text \<open>
  What the user enters at the menu of \<^verbatim>\<open>main\<close>: one address (choice 1), lines of addresses
  that end at the first blank one (choice 2), the exit (choice 3), or anything else.
\<close>

datatype choice = SingleImage string | MultipleImages "string list" | Exit | InvalidChoice

fun main_loop :: "env \<Rightarrow> fetcher \<Rightarrow> choice list \<Rightarrow> fetcher" where
  "main_loop E st [] = st"
| "main_loop E st (SingleImage line # cs) =
     (let u = strip line
      in if u \<noteq> [] then main_loop E (snd (download_single_image E st u)) cs
         else main_loop E st cs)"
| "main_loop E st (MultipleImages lines # cs) =
     (let urls = takeWhile (\<lambda>u. u \<noteq> []) (map strip lines)
      in if urls \<noteq> [] then main_loop E (snd (download_multiple_images E st urls)) cs
         else main_loop E st cs)"
| "main_loop E st (Exit # cs) = st"
| "main_loop E st (InvalidChoice # cs) = main_loop E st cs"

section \<open>A sample environment\<close>

text \<open>
  Concrete values on which the theorems below are instantiated: a stand-in digest (the
  first and the last four bytes), a stand-in for \<^verbatim>\<open>urlparse(_).path\<close> on addresses of the
  plain form \<^verbatim>\<open>scheme://host/path?query#fragment\<close>, a web that serves a fixed table of
  pages, a disk on which every write succeeds, and a fetcher right after the startup on
  an empty directory.
\<close>

definition demo_md5 :: "bytes \<Rightarrow> string" where
  "demo_md5 c = take 4 c @ take 4 (rev c)"

definition demo_urlpath :: "string \<Rightarrow> string" where
  "demo_urlpath u =
     takeWhile (\<lambda>c. c \<noteq> CHR ''?'' \<and> c \<noteq> CHR ''#'')
       (dropWhile (\<lambda>c. c \<noteq> CHR ''/'') (drop 3 (dropWhile (\<lambda>c. c \<noteq> CHR '':'') u)))"

definition demo_env :: "(string \<times> response) list \<Rightarrow> env" where
  "demo_env pages =
     \<lparr>md5 = demo_md5, urlparse_path = demo_urlpath, web = (\<lambda>n. map_of pages),
      disk = (\<lambda>n p c. WriteOk), mkdir_ok = True\<rparr>"

definition page :: "string \<Rightarrow> (string \<times> string) list \<Rightarrow> bytes \<Rightarrow> response" where
  "page u hs c = \<lparr>status_code = 200, headers = hs, url = u, content = Some c\<rparr>"

definition empty_dir :: fetcher where
  "empty_dir = \<lparr>downloaded_hashes = {}, fs = \<lparr>root = Directory True, entries = []\<rparr>,
                 clock = 0, trace = [MadeDirs]\<rparr>"

section \<open>The paths through one download\<close>

text \<open>The events that a call has added to the trace.\<close>

definition new_events :: "fetcher \<Rightarrow> fetcher \<Rightarrow> event list" where
  "new_events st st' = drop (length (trace st)) (trace st')"

lemma connecting_simps [simp]:
  "downloaded_hashes (connecting st u) = downloaded_hashes st"
  "fs (connecting st u) = fs st"
  "clock (connecting st u) = Suc (clock st)"
  "trace (connecting st u) = trace st @ [Connecting u]"
  by (simp_all add: connecting_def)

lemma reading_body_simps [simp]:
  "downloaded_hashes (reading_body st) = downloaded_hashes st"
  "fs (reading_body st) = fs st"
  "clock (reading_body st) = clock st"
  "trace (reading_body st) = trace st @ [BodyRead]"
  by (simp_all add: reading_body_def)

lemma report_simps [simp]:
  "fst (report st res) = res"
  "downloaded_hashes (snd (report st res)) = downloaded_hashes st"
  "fs (snd (report st res)) = fs st"
  "clock (snd (report st res)) = clock st"
  "trace (snd (report st res)) = trace st @ [Reported res]"
  by (simp_all add: report_def)

text \<open>The file name under which \<^verbatim>\<open>download_single_image\<close> stores a new body.\<close>

definition target_name :: "env \<Rightarrow> filesys \<Rightarrow> string \<Rightarrow> response \<Rightarrow> string" where
  "target_name E fsys u r =
     (let filename = get_filename_from_url E u r
      in unique_filename fsys (fst (splitext filename)) (snd (splitext filename)) filename 1)"

lemma dsi_no_response:
  "web E (clock st) u = None \<Longrightarrow>
   download_single_image E st u = report (connecting st u) ConnectionError"
  by (simp add: download_single_image_def)

lemma dsi_bad_status:
  "web E (clock st) u = Some r \<Longrightarrow> raises_for_status r \<Longrightarrow>
   download_single_image E st u = report (connecting st u) ConnectionError"
  by (simp add: download_single_image_def)

lemma dsi_bad_length:
  "web E (clock st) u = Some r \<Longrightarrow> \<not> raises_for_status r \<Longrightarrow>
   content_length_too_large r = None \<Longrightarrow>
   download_single_image E st u = report (connecting st u) ErrorOccurred"
  by (simp add: download_single_image_def)

lemma dsi_too_large:
  "web E (clock st) u = Some r \<Longrightarrow> \<not> raises_for_status r \<Longrightarrow>
   content_length_too_large r = Some True \<Longrightarrow>
   download_single_image E st u = report (connecting st u) TooLarge"
  by (simp add: download_single_image_def)

lemma dsi_unsafe_type:
  "web E (clock st) u = Some r \<Longrightarrow> \<not> raises_for_status r \<Longrightarrow>
   content_length_too_large r = Some False \<Longrightarrow> \<not> is_safe_file_type E r \<Longrightarrow>
   download_single_image E st u = report (connecting st u) UnsafeType"
  by (simp add: download_single_image_def)

lemma dsi_body_fails:
  "web E (clock st) u = Some r \<Longrightarrow> \<not> raises_for_status r \<Longrightarrow>
   content_length_too_large r = Some False \<Longrightarrow> is_safe_file_type E r \<Longrightarrow>
   content r = None \<Longrightarrow>
   download_single_image E st u = report (reading_body (connecting st u)) ConnectionError"
  by (simp add: download_single_image_def)

lemma dsi_duplicate:
  "web E (clock st) u = Some r \<Longrightarrow> \<not> raises_for_status r \<Longrightarrow>
   content_length_too_large r = Some False \<Longrightarrow> is_safe_file_type E r \<Longrightarrow>
   content r = Some c \<Longrightarrow> md5 E c \<in> downloaded_hashes st \<Longrightarrow>
   download_single_image E st u = report (reading_body (connecting st u)) Duplicate"
  by (simp add: download_single_image_def is_duplicate_def get_file_hash_def)

lemma dsi_save:
  "web E (clock st) u = Some r \<Longrightarrow> \<not> raises_for_status r \<Longrightarrow>
   content_length_too_large r = Some False \<Longrightarrow> is_safe_file_type E r \<Longrightarrow>
   content r = Some c \<Longrightarrow> md5 E c \<notin> downloaded_hashes st \<Longrightarrow>
   download_single_image E st u = save_image E (reading_body (connecting st u)) (clock st) u r c"
  by (simp add: download_single_image_def is_duplicate_def get_file_hash_def)

lemma dsi_cases [case_names no_response bad_status bad_length too_large unsafe_type
    body_fails duplicate save]:
  obtains
    "web E (clock st) u = None"
    "download_single_image E st u = report (connecting st u) ConnectionError"
  | r where "web E (clock st) u = Some r" "raises_for_status r"
    "download_single_image E st u = report (connecting st u) ConnectionError"
  | r where "web E (clock st) u = Some r" "\<not> raises_for_status r"
    "content_length_too_large r = None"
    "download_single_image E st u = report (connecting st u) ErrorOccurred"
  | r where "web E (clock st) u = Some r" "\<not> raises_for_status r"
    "content_length_too_large r = Some True"
    "download_single_image E st u = report (connecting st u) TooLarge"
  | r where "web E (clock st) u = Some r" "\<not> raises_for_status r"
    "content_length_too_large r = Some False" "\<not> is_safe_file_type E r"
    "download_single_image E st u = report (connecting st u) UnsafeType"
  | r where "web E (clock st) u = Some r" "\<not> raises_for_status r"
    "content_length_too_large r = Some False" "is_safe_file_type E r" "content r = None"
    "download_single_image E st u = report (reading_body (connecting st u)) ConnectionError"
  | r c where "web E (clock st) u = Some r" "\<not> raises_for_status r"
    "content_length_too_large r = Some False" "is_safe_file_type E r" "content r = Some c"
    "md5 E c \<in> downloaded_hashes st"
    "download_single_image E st u = report (reading_body (connecting st u)) Duplicate"
  | r c where "web E (clock st) u = Some r" "\<not> raises_for_status r"
    "content_length_too_large r = Some False" "is_safe_file_type E r" "content r = Some c"
    "md5 E c \<notin> downloaded_hashes st"
    "download_single_image E st u = save_image E (reading_body (connecting st u)) (clock st) u r c"
proof (cases "web E (clock st) u")
  case None
  show ?thesis by (rule that(1) [OF None dsi_no_response [OF None]])
next
  case (Some r)
  note resp = this
  show ?thesis
  proof (cases "raises_for_status r")
    case True
    show ?thesis by (rule that(2) [OF resp True dsi_bad_status [OF resp True]])
  next
    case ok: False
    show ?thesis
    proof (cases "content_length_too_large r")
      case None
      show ?thesis by (rule that(3) [OF resp ok None dsi_bad_length [OF resp ok None]])
    next
      case (Some large)
      show ?thesis
      proof (cases large)
        case True
        with Some have len: "content_length_too_large r = Some True" by simp
        show ?thesis by (rule that(4) [OF resp ok len dsi_too_large [OF resp ok len]])
      next
        case False
        with Some have len: "content_length_too_large r = Some False" by simp
        show ?thesis
        proof (cases "is_safe_file_type E r")
          case False
          show ?thesis
            by (rule that(5) [OF resp ok len False dsi_unsafe_type [OF resp ok len False]])
        next
          case safe: True
          show ?thesis
          proof (cases "content r")
            case None
            show ?thesis
              by (rule that(6) [OF resp ok len safe None dsi_body_fails [OF resp ok len safe None]])
          next
            case (Some c)
            show ?thesis
            proof (cases "md5 E c \<in> downloaded_hashes st")
              case True
              show ?thesis
                by (rule that(7) [OF resp ok len safe Some True
                      dsi_duplicate [OF resp ok len safe Some True]])
            next
              case False
              show ?thesis
                by (rule that(8) [OF resp ok len safe Some False
                      dsi_save [OF resp ok len safe Some False]])
            qed
          qed
        qed
      qed
    qed
  qed
qed

lemma save_image_cases [case_names open_fails write_fails written]:
  obtains
    "save_image E st n u r c = report st ErrorOccurred"
  | part l where "root (fs st) = Directory l"
    "save_image E st n u r c =
       report (st\<lparr>fs := put_file (fs st) (target_name E (fs st) u r) part\<rparr>) ErrorOccurred"
  | l where "root (fs st) = Directory l"
    "save_image E st n u r c =
       report (st\<lparr>fs := put_file (fs st) (target_name E (fs st) u r) c,
                   downloaded_hashes := insert (md5 E c) (downloaded_hashes st),
                   trace := trace st @ [FileWritten (join download_dir (target_name E (fs st) u r)) c]\<rparr>)
              (Accepted (join download_dir (target_name E (fs st) u r)))"
proof (cases "root (fs st)")
  case Absent
  then show ?thesis using that(1) by (simp add: save_image_def Let_def case_prod_beta)
next
  case NotADirectory
  then show ?thesis using that(1) by (simp add: save_image_def Let_def case_prod_beta)
next
  case (Directory l)
  show ?thesis
  proof (cases "disk E n (join download_dir (target_name E (fs st) u r)) c")
    case WriteOk
    with Directory show ?thesis
      using that(3) [of l]
      by (simp add: save_image_def target_name_def get_file_hash_def Let_def case_prod_beta)
  next
    case OpenFails
    with Directory show ?thesis
      using that(1)
      by (simp add: save_image_def target_name_def Let_def case_prod_beta)
  next
    case (WriteFails part)
    with Directory show ?thesis
      using that(2) [of l part]
      by (simp add: save_image_def target_name_def Let_def case_prod_beta)
  qed
qed

lemma save_image_outcome:
  "fst (save_image E st n u r c) = ErrorOccurred
   \<or> fst (save_image E st n u r c) = Accepted (join download_dir (target_name E (fs st) u r))"
  by (cases rule: save_image_cases [of E st n u r c]) simp_all

lemma new_events_append [simp]: "trace st' = trace st @ evs \<Longrightarrow> new_events st st' = evs"
  by (simp add: new_events_def)

text \<open>The fetcher after a failed write left a file behind, and after a completed store.\<close>

definition left_behind :: "fetcher \<Rightarrow> string \<Rightarrow> bytes \<Rightarrow> fetcher" where
  "left_behind st name part = st\<lparr>fs := put_file (fs st) name part\<rparr>"

definition stored :: "env \<Rightarrow> fetcher \<Rightarrow> string \<Rightarrow> bytes \<Rightarrow> fetcher" where
  "stored E st name c =
     st\<lparr>fs := put_file (fs st) name c,
        downloaded_hashes := insert (md5 E c) (downloaded_hashes st),
        trace := trace st @ [FileWritten (join download_dir name) c]\<rparr>"

lemma left_behind_simps [simp]:
  "downloaded_hashes (left_behind st name part) = downloaded_hashes st"
  "fs (left_behind st name part) = put_file (fs st) name part"
  "clock (left_behind st name part) = clock st"
  "trace (left_behind st name part) = trace st"
  by (simp_all add: left_behind_def)

lemma stored_simps [simp]:
  "downloaded_hashes (stored E st name c) = insert (md5 E c) (downloaded_hashes st)"
  "fs (stored E st name c) = put_file (fs st) name c"
  "clock (stored E st name c) = clock st"
  "trace (stored E st name c) = trace st @ [FileWritten (join download_dir name) c]"
  by (simp_all add: stored_def)

lemma save_image_leaves:
  obtains
    "save_image E st n u r c = report st ErrorOccurred"
  | part l where "root (fs st) = Directory l"
    "save_image E st n u r c =
       report (left_behind st (target_name E (fs st) u r) part) ErrorOccurred"
  | l where "root (fs st) = Directory l"
    "save_image E st n u r c =
       report (stored E st (target_name E (fs st) u r) c)
              (Accepted (join download_dir (target_name E (fs st) u r)))"
  by (cases rule: save_image_cases [of E st n u r c])
    (simp_all add: left_behind_def stored_def)

text \<open>Whether the response to the next request passes the status, size and type checks.\<close>

definition passes_checks :: "env \<Rightarrow> fetcher \<Rightarrow> string \<Rightarrow> bool" where
  "passes_checks E st u =
     (case web E (clock st) u of
        None \<Rightarrow> False
      | Some r \<Rightarrow> \<not> raises_for_status r \<and> content_length_too_large r = Some False
                  \<and> is_safe_file_type E r)"

text \<open>Every path through \<^verbatim>\<open>download_single_image\<close>, with the result it ends in.\<close>

lemma dsi_leaves [case_names no_response bad_status bad_length too_large unsafe_type
    body_fails duplicate open_fails write_fails written]:
  obtains
    "web E (clock st) u = None" "\<not> passes_checks E st u"
    "download_single_image E st u = report (connecting st u) ConnectionError"
  | r where "web E (clock st) u = Some r" "raises_for_status r" "\<not> passes_checks E st u"
    "download_single_image E st u = report (connecting st u) ConnectionError"
  | r where "web E (clock st) u = Some r" "\<not> raises_for_status r"
    "content_length_too_large r = None" "\<not> passes_checks E st u"
    "download_single_image E st u = report (connecting st u) ErrorOccurred"
  | r where "web E (clock st) u = Some r" "\<not> raises_for_status r"
    "content_length_too_large r = Some True" "\<not> passes_checks E st u"
    "download_single_image E st u = report (connecting st u) TooLarge"
  | r where "web E (clock st) u = Some r" "\<not> raises_for_status r"
    "content_length_too_large r = Some False" "\<not> is_safe_file_type E r"
    "\<not> passes_checks E st u"
    "download_single_image E st u = report (connecting st u) UnsafeType"
  | r where "web E (clock st) u = Some r" "passes_checks E st u" "content r = None"
    "download_single_image E st u = report (reading_body (connecting st u)) ConnectionError"
  | r c where "web E (clock st) u = Some r" "passes_checks E st u" "content r = Some c"
    "md5 E c \<in> downloaded_hashes st"
    "download_single_image E st u = report (reading_body (connecting st u)) Duplicate"
  | r c where "web E (clock st) u = Some r" "passes_checks E st u" "content r = Some c"
    "md5 E c \<notin> downloaded_hashes st"
    "download_single_image E st u = report (reading_body (connecting st u)) ErrorOccurred"
  | r c part l where "web E (clock st) u = Some r" "passes_checks E st u" "content r = Some c"
    "md5 E c \<notin> downloaded_hashes st" "root (fs st) = Directory l"
    "download_single_image E st u =
       report (left_behind (reading_body (connecting st u)) (target_name E (fs st) u r) part)
              ErrorOccurred"
  | r c l where "web E (clock st) u = Some r" "passes_checks E st u" "content r = Some c"
    "md5 E c \<notin> downloaded_hashes st" "root (fs st) = Directory l"
    "download_single_image E st u =
       report (stored E (reading_body (connecting st u)) (target_name E (fs st) u r) c)
              (Accepted (join download_dir (target_name E (fs st) u r)))"
proof (cases rule: dsi_cases [of E st u])
  case no_response
  then show ?thesis using that(1) by (simp add: passes_checks_def)
next
  case (bad_status r)
  then show ?thesis using that(2) [of r] by (simp add: passes_checks_def)
next
  case (bad_length r)
  then show ?thesis using that(3) [of r] by (simp add: passes_checks_def)
next
  case (too_large r)
  then show ?thesis using that(4) [of r] by (simp add: passes_checks_def)
next
  case (unsafe_type r)
  then show ?thesis using that(5) [of r] by (simp add: passes_checks_def)
next
  case (body_fails r)
  then show ?thesis using that(6) [of r] by (simp add: passes_checks_def)
next
  case (duplicate r c)
  then show ?thesis using that(7) [of r c] by (simp add: passes_checks_def)
next
  case (save r c)
  then have p: "passes_checks E st u" by (simp add: passes_checks_def)
  show ?thesis
  proof (cases rule: save_image_leaves [of E "reading_body (connecting st u)" "clock st" u r c])
    case 1
    show ?thesis
      by (rule that(8) [OF save(1) p save(5,6)]) (simp add: save(7) 1)
  next
    case (2 part l)
    then have l: "root (fs st) = Directory l" by simp
    show ?thesis
      by (rule that(9) [OF save(1) p save(5,6) l]) (use 2(2) in \<open>simp add: save(7)\<close>)
  next
    case (3 l)
    then have l: "root (fs st) = Directory l" by simp
    show ?thesis
      by (rule that(10) [OF save(1) p save(5,6) l]) (use 3(2) in \<open>simp add: save(7)\<close>)
  qed
qed

section \<open>Substrings\<close>

definition has_substring :: "string \<Rightarrow> string \<Rightarrow> bool" where
  "has_substring s sub = (\<exists>ps ss. s = ps @ sub @ ss)"

lemma take_eq_iff_prefix: "take (length sub) xs = sub \<longleftrightarrow> (\<exists>ss. xs = sub @ ss)"
  by (metis append_eq_conv_conj append_take_drop_id)

lemma str_in_iff: "str_in sub s \<longleftrightarrow> has_substring s sub"
proof (induction s)
  case Nil
  then show ?case by (auto simp: has_substring_def)
next
  case (Cons c cs)
  have "has_substring (c # cs) sub \<longleftrightarrow> (\<exists>ss. c # cs = sub @ ss) \<or> has_substring cs sub"
  proof
    assume "has_substring (c # cs) sub"
    then obtain ps ss where eq: "c # cs = ps @ sub @ ss" by (auto simp: has_substring_def)
    show "(\<exists>ss. c # cs = sub @ ss) \<or> has_substring cs sub"
    proof (cases ps)
      case Nil
      with eq show ?thesis by auto
    next
      case (Cons p ps')
      with eq have "cs = ps' @ sub @ ss" by simp
      then show ?thesis by (auto simp: has_substring_def)
    qed
  next
    assume "(\<exists>ss. c # cs = sub @ ss) \<or> has_substring cs sub"
    then show "has_substring (c # cs) sub"
    proof
      assume "\<exists>ss. c # cs = sub @ ss"
      then obtain ss where "c # cs = [] @ sub @ ss" by auto
      then show ?thesis unfolding has_substring_def by blast
    next
      assume "has_substring cs sub"
      then obtain ps ss where "cs = ps @ sub @ ss" by (auto simp: has_substring_def)
      then have "c # cs = (c # ps) @ sub @ ss" by simp
      then show ?thesis unfolding has_substring_def by blast
    qed
  qed
  with Cons.IH show ?case by (simp add: take_eq_iff_prefix del: take_Suc_Cons)
qed

section \<open>The type-safety stage\<close>

lemma dsi_outcome_UnsafeType:
  "fst (download_single_image E st u) = UnsafeType \<longleftrightarrow>
     (\<exists>r. web E (clock st) u = Some r \<and> \<not> raises_for_status r
          \<and> content_length_too_large r = Some False \<and> \<not> is_safe_file_type E r)"
proof (cases rule: dsi_cases [of E st u])
  case (save r c)
  then show ?thesis
    using save_image_outcome [of E "reading_body (connecting st u)" "clock st" u r c] by auto
qed simp_all

text \<open>
  The two signals in the words of the specification: a content type that is present, not
  empty and holds none of the allowed MIME types as a substring (case folded), and an
  extension of the path of the final address that is present and, case folded, none of
  the allowed ones.
\<close>

definition disallowed_content_type :: "response \<Rightarrow> bool" where
  "disallowed_content_type r =
     (case headers_get r ''content-type'' of
        None \<Rightarrow> False
      | Some v \<Rightarrow>
          v \<noteq> [] \<and>
          \<not> (\<exists>m \<in> {''image/jpeg'', ''image/jpg'', ''image/png'',
                      ''image/gif'', ''image/webp'', ''image/bmp''}. has_substring (lower v) m))"

definition disallowed_extension :: "env \<Rightarrow> response \<Rightarrow> bool" where
  "disallowed_extension E r =
     (let ext = snd (splitext (urlparse_path E (url r)))
      in ext \<noteq> [] \<and> lower ext \<notin> {''.jpg'', ''.jpeg'', ''.png'', ''.gif'', ''.webp'', ''.bmp''})"

lemma is_safe_file_type_iff:
  "is_safe_file_type E r \<longleftrightarrow> \<not> disallowed_content_type r \<and> \<not> disallowed_extension E r"
  by (auto simp: is_safe_file_type_def disallowed_content_type_def disallowed_extension_def
      safe_types_def safe_extensions_def str_in_iff lower_def Let_def split: option.splits)

text \<open>
  Claim C3. The type-safety stage accepts a response exactly when neither signal is
  disallowed; so a disallowed content type rejects whatever the extension is, and a
  disallowed extension rejects whatever the content type is. A missing content-type
  header is no disallowed content type, a missing extension no disallowed extension. A
  download ends as \<open>UnsafeType\<close> exactly when its response passed the status and the size
  check and carries a disallowed signal.
\<close>

theorem type_safety_stage:
  "(is_safe_file_type E r \<longleftrightarrow> \<not> disallowed_content_type r \<and> \<not> disallowed_extension E r)
   \<and> (headers_get r ''content-type'' = None \<longrightarrow> \<not> disallowed_content_type r)
   \<and> (snd (splitext (urlparse_path E (url r))) = [] \<longrightarrow> \<not> disallowed_extension E r)
   \<and> (fst (download_single_image E st u) = UnsafeType \<longleftrightarrow>
        (\<exists>r'. web E (clock st) u = Some r' \<and> \<not> raises_for_status r'
              \<and> content_length_too_large r' = Some False
              \<and> (disallowed_content_type r' \<or> disallowed_extension E r')))"
proof -
  have "headers_get r ''content-type'' = None \<longrightarrow> \<not> disallowed_content_type r"
    by (simp add: disallowed_content_type_def)
  moreover have "snd (splitext (urlparse_path E (url r))) = [] \<longrightarrow> \<not> disallowed_extension E r"
    by (simp add: disallowed_extension_def)
  moreover have "fst (download_single_image E st u) = UnsafeType \<longleftrightarrow>
        (\<exists>r'. web E (clock st) u = Some r' \<and> \<not> raises_for_status r'
              \<and> content_length_too_large r' = Some False
              \<and> (disallowed_content_type r' \<or> disallowed_extension E r'))"
    by (simp add: dsi_outcome_UnsafeType is_safe_file_type_iff)
  ultimately show ?thesis
    using is_safe_file_type_iff [of E r] by blast
qed

text \<open>
  The three responses of the specification: \<^verbatim>\<open>text/html\<close> under a \<^verbatim>\<open>.png\<close> address is a
  disallowed content type, no header under a \<^verbatim>\<open>.png\<close> address and no extension are
  allowed, \<^verbatim>\<open>image/png\<close> under an \<^verbatim>\<open>.exe\<close> address is a disallowed extension, and its
  download ends as \<open>UnsafeType\<close>.
\<close>

theorem type_safety_stage_witness:
  "disallowed_content_type (page ''http://x/a.png'' [(''Content-Type'', ''text/html'')] ''<html>'')
   \<and> \<not> disallowed_content_type (page ''http://x/a.png'' [] ''PNG'')
   \<and> \<not> disallowed_extension (demo_env []) (page ''http://x/a'' [] ''PNG'')
   \<and> disallowed_extension (demo_env [])
        (page ''http://x/a.exe'' [(''Content-Type'', ''image/png'')] ''MZ'')
   \<and> fst (download_single_image
            (demo_env [(''http://x/a.exe'',
               page ''http://x/a.exe'' [(''Content-Type'', ''image/png'')] ''MZ'')])
            empty_dir ''http://x/a.exe'') = UnsafeType"
proof -
  let ?E = "demo_env []"
  let ?html = "page ''http://x/a.png'' [(''Content-Type'', ''text/html'')] ''<html>''"
  let ?png = "page ''http://x/a.png'' [] ''PNG''"
  let ?plain = "page ''http://x/a'' [] ''PNG''"
  let ?exe = "page ''http://x/a.exe'' [(''Content-Type'', ''image/png'')] ''MZ''"
  let ?ok = "page ''http://x/a.png'' [(''Content-Type'', ''image/png'')] ''MZ''"
  have 1: "\<not> is_safe_file_type ?E ?html" by code_simp
  have 2: "\<not> disallowed_extension ?E ?html" by code_simp
  have 3: "headers_get ?png ''content-type'' = None" by code_simp
  have 4: "snd (splitext (urlparse_path ?E (url ?plain))) = []" by code_simp
  have 5: "\<not> is_safe_file_type ?E ?exe" by code_simp
  have 6: "is_safe_file_type ?E ?ok" by code_simp
  have 7: "disallowed_content_type ?ok = disallowed_content_type ?exe"
    by (simp add: disallowed_content_type_def headers_get_def page_def)
  from 1 2 type_safety_stage [of ?E ?html empty_dir "[]"]
  have a: "disallowed_content_type ?html" by blast
  from 3 type_safety_stage [of ?E ?png empty_dir "[]"]
  have b: "\<not> disallowed_content_type ?png" by blast
  from 4 type_safety_stage [of ?E ?plain empty_dir "[]"]
  have c: "\<not> disallowed_extension ?E ?plain" by blast
  from 6 type_safety_stage [of ?E ?ok empty_dir "[]"]
  have "\<not> disallowed_content_type ?ok" by blast
  with 5 7 type_safety_stage [of ?E ?exe empty_dir "[]"]
  have d: "disallowed_extension ?E ?exe" by blast
  let ?W = "demo_env [(''http://x/a.exe'', ?exe)]"
  have 8: "web ?W (clock empty_dir) ''http://x/a.exe'' = Some ?exe"
    "\<not> raises_for_status ?exe" "content_length_too_large ?exe = Some False"
    "\<not> is_safe_file_type ?W ?exe"
    by (code_simp, simp add: raises_for_status_def page_def, code_simp, code_simp)
  from 8(4) type_safety_stage [of ?W ?exe empty_dir "''http://x/a.exe''"]
  have "disallowed_content_type ?exe \<or> disallowed_extension ?W ?exe" by blast
  with 8(1-3) type_safety_stage [of ?W ?exe empty_dir "''http://x/a.exe''"]
  have e: "fst (download_single_image ?W empty_dir ''http://x/a.exe'') = UnsafeType" by blast
  from a b c d e show ?thesis by blast
qed

section \<open>Collision-free naming\<close>

lemma unique_filename_spec:
  "\<not> exists_in fsys (unique_filename fsys b e f c) \<and>
   (if exists_in fsys f
    then \<exists>N\<ge>c. unique_filename fsys b e f c = candidate b e N \<and>
           (\<forall>k. c \<le> k \<and> k < N \<longrightarrow> exists_in fsys (candidate b e k))
    else unique_filename fsys b e f c = f)"
proof (induction fsys b e f c rule: unique_filename.induct)
  case (1 fsys b e f c)
  show ?case
  proof (cases "exists_in fsys f")
    case False
    then show ?thesis by (simp add: unique_filename.simps [of fsys b e f c])
  next
    case True
    let ?next = "unique_filename fsys b e (candidate b e c) (c + 1)"
    have eq: "unique_filename fsys b e f c = ?next"
      using True by (simp add: unique_filename.simps [of fsys b e f c])
    from "1.IH" [OF True]
    have free: "\<not> exists_in fsys ?next"
      and rest: "if exists_in fsys (candidate b e c)
         then \<exists>N\<ge>c + 1. ?next = candidate b e N \<and>
                (\<forall>k. c + 1 \<le> k \<and> k < N \<longrightarrow> exists_in fsys (candidate b e k))
         else ?next = candidate b e c"
      by blast+
    have "\<exists>N\<ge>c. ?next = candidate b e N \<and>
           (\<forall>k. c \<le> k \<and> k < N \<longrightarrow> exists_in fsys (candidate b e k))"
    proof (cases "exists_in fsys (candidate b e c)")
      case False
      with rest have "?next = candidate b e c" by simp
      then show ?thesis by auto
    next
      case taken: True
      with rest obtain N where N: "c + 1 \<le> N" "?next = candidate b e N"
        "\<forall>k. c + 1 \<le> k \<and> k < N \<longrightarrow> exists_in fsys (candidate b e k)"
        by auto
      have "\<forall>k. c \<le> k \<and> k < N \<longrightarrow> exists_in fsys (candidate b e k)"
      proof (intro allI impI)
        fix k assume k: "c \<le> k \<and> k < N"
        show "exists_in fsys (candidate b e k)"
        proof (cases "k = c")
          case True
          with taken show ?thesis by simp
        next
          case False
          with k have "c + 1 \<le> k \<and> k < N" by simp
          with N(3) show ?thesis by blast
        qed
      qed
      with N(1,2) show ?thesis by (intro exI [of _ N]) simp
    qed
    with free True show ?thesis by (simp add: eq)
  qed
qed

lemma unique_filename_free: "\<not> exists_in fsys (unique_filename fsys b e f c)"
  using unique_filename_spec [of fsys b e f c] by blast

lemma unique_filename_same:
  "\<not> exists_in fsys f \<Longrightarrow> unique_filename fsys b e f c = f"
  using unique_filename_spec [of fsys b e f c] by (simp split: if_splits)

lemma unique_filename_probe:
  "exists_in fsys f \<Longrightarrow>
   \<exists>N\<ge>c. unique_filename fsys b e f c = candidate b e N \<and>
     (\<forall>k. c \<le> k \<and> k < N \<longrightarrow> exists_in fsys (candidate b e k))"
  using unique_filename_spec [of fsys b e f c] by (simp split: if_splits)

lemma dsi_accepted_path:
  assumes "fst (download_single_image E st u) = Accepted p"
  shows "\<exists>r. web E (clock st) u = Some r \<and> p = join download_dir (target_name E (fs st) u r)"
proof (cases rule: dsi_cases [of E st u])
  case (save r c)
  with assms save_image_outcome [of E "reading_body (connecting st u)" "clock st" u r c]
  show ?thesis by auto
qed (use assms in simp_all)

text \<open>
  Claim C4. The loop is entered with the derived file name \<open>f\<close>, its split
  \<open>(base, extension)\<close> and the counter 1. If \<open>f\<close> does not exist in the directory the loop
  returns \<open>f\<close> unchanged. Otherwise it returns \<open>base_N extension\<close> for some \<open>N \<ge> 1\<close> such that
  every \<open>base_k extension\<close> with \<open>1 \<le> k < N\<close> exists; as the returned name does not exist,
  \<open>N\<close> is the least free counter. The returned name never exists in the directory. The
  path an accepted download reports is the directory joined with that name.
\<close>

theorem reserve_unique_path:
  "(\<not> exists_in fsys f \<longrightarrow>
      unique_filename fsys (fst (splitext f)) (snd (splitext f)) f 1 = f)
   \<and> (exists_in fsys f \<longrightarrow>
        (\<exists>N\<ge>1. unique_filename fsys (fst (splitext f)) (snd (splitext f)) f 1 =
                  fst (splitext f) @ ''_'' @ str_nat N @ snd (splitext f)
              \<and> (\<forall>k. 1 \<le> k \<and> k < N \<longrightarrow>
                    exists_in fsys (fst (splitext f) @ ''_'' @ str_nat k @ snd (splitext f)))))
   \<and> \<not> exists_in fsys (unique_filename fsys (fst (splitext f)) (snd (splitext f)) f 1)
   \<and> (fst (download_single_image E st u) = Accepted p \<longrightarrow>
        (\<exists>r. web E (clock st) u = Some r \<and>
             p = join download_dir
                   (unique_filename (fs st)
                      (fst (splitext (get_filename_from_url E u r)))
                      (snd (splitext (get_filename_from_url E u r)))
                      (get_filename_from_url E u r) 1)))"
proof -
  have a: "\<not> exists_in fsys f \<longrightarrow>
      unique_filename fsys (fst (splitext f)) (snd (splitext f)) f 1 = f"
    by (blast intro: unique_filename_same)
  have b: "exists_in fsys f \<longrightarrow>
        (\<exists>N\<ge>1. unique_filename fsys (fst (splitext f)) (snd (splitext f)) f 1 =
                  fst (splitext f) @ ''_'' @ str_nat N @ snd (splitext f)
              \<and> (\<forall>k. 1 \<le> k \<and> k < N \<longrightarrow>
                    exists_in fsys (fst (splitext f) @ ''_'' @ str_nat k @ snd (splitext f))))"
    using unique_filename_probe [of fsys f 1 "fst (splitext f)" "snd (splitext f)"]
    unfolding candidate_def by blast
  have c: "\<not> exists_in fsys (unique_filename fsys (fst (splitext f)) (snd (splitext f)) f 1)"
    by (rule unique_filename_free)
  have d: "fst (download_single_image E st u) = Accepted p \<longrightarrow>
        (\<exists>r. web E (clock st) u = Some r \<and>
             p = join download_dir
                   (unique_filename (fs st)
                      (fst (splitext (get_filename_from_url E u r)))
                      (snd (splitext (get_filename_from_url E u r)))
                      (get_filename_from_url E u r) 1))"
    using dsi_accepted_path [of E st u p] unfolding target_name_def Let_def by blast
  from a b c d show ?thesis by blast
qed

text \<open>
  A fetcher over a directory that holds \<^verbatim>\<open>a.png\<close> (a file that cannot be read) and
  \<^verbatim>\<open>a_1.png\<close> (a directory), and a page that serves a body as \<^verbatim>\<open>image/png\<close>.
\<close>

definition two_taken :: fetcher where
  "two_taken =
     \<lparr>downloaded_hashes = {},
      fs = \<lparr>root = Directory True,
             entries = [(''a.png'', RegularFile ''one'' False),
                        (''a_1.png'', SubDirectory)]\<rparr>,
      clock = 0, trace = [ListedDir, MadeDirs]\<rparr>"

definition png_page :: "string \<Rightarrow> bytes \<Rightarrow> string \<times> response" where
  "png_page u c = (u, page u [(''Content-Type'', ''image/png'')] c)"

text \<open>
  With \<^verbatim>\<open>a.png\<close> and \<^verbatim>\<open>a_1.png\<close> taken the loop returns \<^verbatim>\<open>a_2.png\<close>; the free name
  \<^verbatim>\<open>b.png\<close> is returned as it is. The name \<^verbatim>\<open>..\<close> exists in every directory, has no
  extension, and is stored as \<^verbatim>\<open>.._1\<close>.
\<close>

theorem reserve_unique_path_witness:
  "exists_in (fs two_taken) ''a.png''
   \<and> unique_filename (fs two_taken) ''a'' ''.png'' ''a.png'' 1 = ''a_2.png''
   \<and> \<not> exists_in (fs two_taken) ''a_2.png''
   \<and> \<not> exists_in (fs two_taken) ''b.png''
   \<and> unique_filename (fs two_taken) ''b'' ''.png'' ''b.png'' 1 = ''b.png''
   \<and> fst (download_single_image (demo_env [png_page ''http://x/a.png'' ''three''])
            two_taken ''http://x/a.png'') = Accepted ''Fetched_Images/a_2.png''
   \<and> exists_in (fs two_taken) ''..''
   \<and> unique_filename (fs two_taken) ''..'' [] ''..'' 1 = ''.._1''
   \<and> \<not> exists_in (fs two_taken) ''.._1''
   \<and> fst (download_single_image (demo_env [png_page ''http://x/..'' ''three''])
            two_taken ''http://x/..'') = Accepted ''Fetched_Images/.._1''"
proof -
  let ?E = "demo_env [png_page ''http://x/a.png'' ''three'']"
  let ?u = "''http://x/a.png''"
  let ?p = "''Fetched_Images/a_2.png''"
  let ?D = "demo_env [png_page ''http://x/..'' ''three'']"
  have a: "exists_in (fs two_taken) ''a.png''" by code_simp
  have b: "\<not> exists_in (fs two_taken) ''b.png''" by code_simp
  have d: "exists_in (fs two_taken) ''..''" by code_simp
  have sa: "splitext ''a.png'' = (''a'', ''.png'')" by code_simp
  have sb: "splitext ''b.png'' = (''b'', ''.png'')" by code_simp
  have sd: "splitext ''..'' = (''..'', [])" by code_simp
  have ua: "unique_filename (fs two_taken) ''a'' ''.png'' ''a.png'' 1 = ''a_2.png''" by code_simp
  have ud: "unique_filename (fs two_taken) ''..'' [] ''..'' 1 = ''.._1''" by code_simp
  have acc: "fst (download_single_image ?E two_taken ?u) = Accepted ?p" by code_simp
  have dots: "fst (download_single_image ?D two_taken ''http://x/..'')
      = Accepted ''Fetched_Images/.._1''"
    by code_simp
  from a ua sa reserve_unique_path [of "fs two_taken" "''a.png''" ?E two_taken ?u ?p]
  have 1: "\<not> exists_in (fs two_taken) ''a_2.png''" by simp
  from b sb reserve_unique_path [of "fs two_taken" "''b.png''" ?E two_taken ?u ?p]
  have 2: "unique_filename (fs two_taken) ''b'' ''.png'' ''b.png'' 1 = ''b.png''" by simp
  from d ud sd reserve_unique_path [of "fs two_taken" "''..''" ?E two_taken ?u ?p]
  have 3: "\<not> exists_in (fs two_taken) ''.._1''" by simp
  from a b d ua ud acc dots 1 2 3 show ?thesis by blast
qed

section \<open>What one download adds to the trace\<close>

lemma passes_checks_iff:
  "passes_checks E st u \<longleftrightarrow>
     (\<exists>r. web E (clock st) u = Some r \<and> \<not> raises_for_status r
          \<and> content_length_too_large r = Some False \<and> is_safe_file_type E r)"
  by (simp add: passes_checks_def split: option.splits)

lemma dsi_events_rejected:
  "\<not> passes_checks E st u \<Longrightarrow>
   new_events st (snd (download_single_image E st u)) =
     [Connecting u, Reported (fst (download_single_image E st u))]"
  by (cases rule: dsi_leaves [of E st u]) simp_all

lemma dsi_events_passed:
  "passes_checks E st u \<Longrightarrow>
   (\<exists>p c. new_events st (snd (download_single_image E st u)) =
      [Connecting u, BodyRead, FileWritten p c, Reported (Accepted p)]
      \<and> fst (download_single_image E st u) = Accepted p)
   \<or> (new_events st (snd (download_single_image E st u)) =
        [Connecting u, BodyRead, Reported (fst (download_single_image E st u))]
      \<and> (\<forall>p. fst (download_single_image E st u) \<noteq> Accepted p))"
  by (cases rule: dsi_leaves [of E st u]) simp_all

lemma dsi_outcome_TooLarge:
  "fst (download_single_image E st u) = TooLarge \<longleftrightarrow>
     (\<exists>r. web E (clock st) u = Some r \<and> \<not> raises_for_status r
          \<and> content_length_too_large r = Some True)"
  by (cases rule: dsi_leaves [of E st u]) (simp_all add: passes_checks_def)

lemma dsi_rejected_not_passes:
  "fst (download_single_image E st u) = TooLarge \<or> fst (download_single_image E st u) = UnsafeType
   \<Longrightarrow> \<not> passes_checks E st u"
  by (cases rule: dsi_leaves [of E st u]) simp_all

lemma py_int_Nil [simp]: "py_int [] = None"
  by (simp add: py_int_def int_strip_def)

lemma content_length_too_large_True:
  "content_length_too_large r = Some True \<longleftrightarrow>
     (\<exists>v n. headers_get r ''content-length'' = Some v \<and> py_int v = Some n
            \<and> n > 10 * 1024 * 1024)"
  by (cases "headers_get r ''content-length''")
    (auto simp: content_length_too_large_def split: option.splits)

lemma content_length_too_large_absent:
  "headers_get r ''content-length'' = None \<Longrightarrow> content_length_too_large r = Some False"
  by (simp add: content_length_too_large_def)

lemma content_length_too_large_value:
  "headers_get r ''content-length'' = Some v \<Longrightarrow> py_int v = Some n \<Longrightarrow>
   content_length_too_large r = Some (n > 10 * 1024 * 1024)"
  by (cases v) (simp_all add: content_length_too_large_def)

text \<open>
  A page that declares a content length \<open>v\<close>, with the evaluation of its status and of
  its header.
\<close>

definition sized_page :: "string \<Rightarrow> string \<times> response" where
  "sized_page v =
     (''http://x/a.png'',
      page ''http://x/a.png'' [(''Content-Length'', v), (''Content-Type'', ''image/png'')] ''abc'')"

lemma sized_page_web:
  "web (demo_env [sized_page v]) (clock empty_dir) ''http://x/a.png'' = Some (snd (sized_page v))"
  by (simp add: demo_env_def sized_page_def)

lemma sized_page_status: "\<not> raises_for_status (snd (sized_page v))"
  by (simp add: sized_page_def page_def raises_for_status_def)

lemma sized_page_length: "headers_get (snd (sized_page v)) ''content-length'' = Some v"
proof -
  have "lower ''Content-Length'' = ''content-length''" by code_simp
  moreover have "lower ''content-length'' = ''content-length''" by code_simp
  ultimately show ?thesis by (simp add: sized_page_def page_def headers_get_def)
qed

lemmas py_int_simps = py_int_def int_strip_def int_space_def parse_nat_def digit_val_def
  int_max_str_digits_def

text \<open>
  A string of more than 4300 nines: \<^verbatim>\<open>int\<close> refuses it, and the number it spells is above
  10 MiB.
\<close>

lemma parse_nat_too_long:
  "int_max_str_digits < length (filter (\<lambda>c. digit_val c \<noteq> None) s) \<Longrightarrow> parse_nat s = None"
  by (simp add: parse_nat_def)

lemma py_int_nines:
  assumes "int_max_str_digits < n"
  shows "py_int (replicate n CHR ''9'') = None"
proof -
  have nine: "\<not> int_space CHR ''9''" "digit_val CHR ''9'' \<noteq> None"
    "CHR ''9'' \<noteq> CHR ''-''" "CHR ''9'' \<noteq> CHR ''+''"
    by (simp_all add: int_space_def digit_val_def)
  from assms obtain m where n: "n = Suc m" by (cases n) auto
  have strip: "int_strip (replicate n CHR ''9'') = replicate n CHR ''9''"
    using nine(1) by (simp add: int_strip_def dropWhile_replicate)
  have "length (filter (\<lambda>c. digit_val c \<noteq> None) (replicate n CHR ''9'')) = n"
    using nine(2) by (simp add: filter_replicate)
  with assms have "parse_nat (replicate n CHR ''9'') = None"
    by (simp add: parse_nat_too_long)
  then have "parse_nat (CHR ''9'' # replicate m CHR ''9'') = None"
    by (simp add: n)
  then show ?thesis
    unfolding py_int_def strip using nine(3,4) by (simp add: n)
qed

lemma digits_val_snoc:
  "digits_val (s @ [c]) = 10 * digits_val s + (case digit_val c of None \<Rightarrow> 0 | Some v \<Rightarrow> v)"
  by (simp add: digits_val_def)

lemma digits_val_nines: "digits_val (replicate n CHR ''9'') + 1 = 10 ^ n"
proof (induction n)
  case 0
  then show ?case by (simp add: digits_val_def)
next
  case (Suc n)
  have 9: "digit_val CHR ''9'' = Some 9" by (simp add: digit_val_def)
  have "replicate (Suc n) CHR ''9'' = replicate n CHR ''9'' @ [CHR ''9'']"
    by (simp add: replicate_append_same)
  then have "digits_val (replicate (Suc n) CHR ''9'') = 10 * digits_val (replicate n CHR ''9'') + 9"
    by (simp only: digits_val_snoc 9 option.case)
  with Suc show ?case by simp
qed

lemma nines_exceed:
  assumes "8 \<le> n"
  shows "10 * 1024 * 1024 < digits_val (replicate n CHR ''9'')"
proof -
  from assms have "(10::nat) ^ 8 \<le> 10 ^ n" by (intro power_increasing) simp_all
  with digits_val_nines [of n] show ?thesis by simp
qed

lemma nines_refused:
  assumes "int_max_str_digits < n"
  shows "fst (download_single_image (demo_env [sized_page (replicate n CHR ''9'')]) empty_dir
          ''http://x/a.png'') = ErrorOccurred"
proof -
  define v where "v = replicate n CHR ''9''"
  from assms have "py_int v = None" unfolding v_def by (rule py_int_nines)
  moreover from assms have "v \<noteq> []" unfolding v_def by auto
  ultimately have "content_length_too_large (snd (sized_page v)) = None"
    using sized_page_length [of v] by (simp add: content_length_too_large_def)
  with sized_page_web [of v] sized_page_status [of v]
  have "download_single_image (demo_env [sized_page v]) empty_dir ''http://x/a.png''
      = report (connecting empty_dir ''http://x/a.png'') ErrorOccurred"
    by (rule dsi_bad_length)
  then show ?thesis unfolding v_def by simp
qed

lemma replicate_nonempty: "0 < n \<Longrightarrow> replicate n x \<noteq> []"
  by simp

section \<open>Rejection comes before the body is read\<close>

text \<open>
  Claim C7. A download that ends as \<open>TooLarge\<close> or \<open>UnsafeType\<close> has added the request and
  the report to the trace and nothing else: the body was not asked for. The body is asked
  for exactly when the response passed the status check, the size check and the type
  check, which is when the download goes on to the duplicate check.
\<close>

theorem rejection_before_body_read:
  "(fst (download_single_image E st u) = TooLarge
      \<or> fst (download_single_image E st u) = UnsafeType \<longrightarrow>
      new_events st (snd (download_single_image E st u)) =
        [Connecting u, Reported (fst (download_single_image E st u))])
   \<and> (BodyRead \<in> set (new_events st (snd (download_single_image E st u))) \<longleftrightarrow>
        (\<exists>r. web E (clock st) u = Some r \<and> \<not> raises_for_status r
             \<and> content_length_too_large r = Some False \<and> is_safe_file_type E r))"
proof -
  have a: "fst (download_single_image E st u) = TooLarge
      \<or> fst (download_single_image E st u) = UnsafeType \<longrightarrow>
      new_events st (snd (download_single_image E st u)) =
        [Connecting u, Reported (fst (download_single_image E st u))]"
    using dsi_rejected_not_passes [of E st u] dsi_events_rejected [of E st u] by blast
  have b: "BodyRead \<in> set (new_events st (snd (download_single_image E st u))) \<longleftrightarrow>
      passes_checks E st u"
  proof (cases "passes_checks E st u")
    case True
    with dsi_events_passed [of E st u] show ?thesis by auto
  next
    case False
    with dsi_events_rejected [of E st u] show ?thesis by simp
  qed
  from a b show ?thesis unfolding passes_checks_iff by blast
qed

text \<open>
  A response that declares 10 MiB + 1 is rejected with the request and the report as its
  only events; the body of a small \<^verbatim>\<open>image/png\<close> response is read.
\<close>

theorem rejection_before_body_read_witness:
  "new_events empty_dir (snd (download_single_image (demo_env [sized_page ''10485761''])
       empty_dir ''http://x/a.png''))
     = [Connecting ''http://x/a.png'', Reported TooLarge]
   \<and> BodyRead \<in> set (new_events empty_dir (snd (download_single_image
         (demo_env [png_page ''http://x/a.png'' ''abc'']) empty_dir ''http://x/a.png'')))"
proof -
  have "py_int ''10485761'' = Some 10485761"
    by (simp add: py_int_simps)
  with sized_page_length [of "''10485761''"]
  have "content_length_too_large (snd (sized_page ''10485761'')) = Some True"
    by (simp add: content_length_too_large_value)
  with sized_page_web [of "''10485761''"] sized_page_status
  have big: "fst (download_single_image (demo_env [sized_page ''10485761'']) empty_dir
      ''http://x/a.png'') = TooLarge"
    by (simp add: dsi_too_large)
  have ok: "web (demo_env [png_page ''http://x/a.png'' ''abc'']) (clock empty_dir)
      ''http://x/a.png'' = Some (snd (png_page ''http://x/a.png'' ''abc''))"
    "\<not> raises_for_status (snd (png_page ''http://x/a.png'' ''abc''))"
    "content_length_too_large (snd (png_page ''http://x/a.png'' ''abc'')) = Some False"
    "is_safe_file_type (demo_env [png_page ''http://x/a.png'' ''abc''])
       (snd (png_page ''http://x/a.png'' ''abc''))"
    by (simp add: demo_env_def png_page_def, simp add: png_page_def page_def raises_for_status_def,
        code_simp, code_simp)
  from big rejection_before_body_read
    [of "demo_env [sized_page ''10485761'']" empty_dir "''http://x/a.png''"]
  have 1: "new_events empty_dir (snd (download_single_image (demo_env [sized_page ''10485761''])
       empty_dir ''http://x/a.png'')) = [Connecting ''http://x/a.png'', Reported TooLarge]"
    by simp
  from ok rejection_before_body_read
    [of "demo_env [png_page ''http://x/a.png'' ''abc'']" empty_dir "''http://x/a.png''"]
  have 2: "BodyRead \<in> set (new_events empty_dir (snd (download_single_image
         (demo_env [png_page ''http://x/a.png'' ''abc'']) empty_dir ''http://x/a.png'')))"
    by blast
  from 1 2 show ?thesis by blast
qed

section \<open>The size limit\<close>

text \<open>
  Claim C2 as stated fails for a declared length that \<^verbatim>\<open>int\<close> refuses to read: a header of
  4301 nines spells a number above 10 MiB, but \<^verbatim>\<open>int\<close> raises on more than 4300 digits, and
  the download ends in the handler of \<^verbatim>\<open>Exception\<close>, not as \<open>TooLarge\<close>.
\<close>

theorem oversized_digits_counterexample:
  "headers_get (snd (sized_page (replicate 4301 CHR ''9''))) ''content-length''
     = Some (replicate 4301 CHR ''9'')
   \<and> 10 * 1024 * 1024 < digits_val (replicate 4301 CHR ''9'')
   \<and> fst (download_single_image (demo_env [sized_page (replicate 4301 CHR ''9'')]) empty_dir
          ''http://x/a.png'') = ErrorOccurred"
proof (intro conjI)
  show "headers_get (snd (sized_page (replicate 4301 CHR ''9''))) ''content-length''
     = Some (replicate 4301 CHR ''9'')"
    by (rule sized_page_length)
  have "(8::nat) \<le> 4301" by simp
  then show "10 * 1024 * 1024 < digits_val (replicate 4301 CHR ''9'')"
    by (rule nines_exceed)
  have "int_max_str_digits < 4301" by (simp add: int_max_str_digits_def)
  then show "fst (download_single_image (demo_env [sized_page (replicate 4301 CHR ''9'')])
      empty_dir ''http://x/a.png'') = ErrorOccurred"
    by (rule nines_refused)
qed

text \<open>
  Claim C2, amended. For a response that passed the status check, the download ends as
  \<open>TooLarge\<close> exactly when the content-length header is present and \<^verbatim>\<open>int\<close> reads from it a
  value above 10 * 1024 * 1024. That rejection happens without the body being asked for.
  A response without the header passes the size check; so does a declared length of
  exactly 10 MiB, while 10 MiB + 1 is rejected.
\<close>

theorem size_limit_stage:
  assumes "web E (clock st) u = Some r" and "\<not> raises_for_status r"
  shows "(fst (download_single_image E st u) = TooLarge \<longleftrightarrow>
           (\<exists>v n. headers_get r ''content-length'' = Some v \<and> py_int v = Some n
                  \<and> n > 10 * 1024 * 1024))
         \<and> (fst (download_single_image E st u) = TooLarge \<longrightarrow>
              BodyRead \<notin> set (new_events st (snd (download_single_image E st u))))
         \<and> (headers_get r ''content-length'' = None \<longrightarrow>
              content_length_too_large r = Some False
              \<and> fst (download_single_image E st u) \<noteq> TooLarge)
         \<and> (\<forall>v. headers_get r ''content-length'' = Some v
                  \<and> py_int v = Some (10 * 1024 * 1024) \<longrightarrow>
                content_length_too_large r = Some False
                \<and> fst (download_single_image E st u) \<noteq> TooLarge)
         \<and> (\<forall>v. headers_get r ''content-length'' = Some v
                  \<and> py_int v = Some (10 * 1024 * 1024 + 1) \<longrightarrow>
                fst (download_single_image E st u) = TooLarge)"
proof -
  have out: "fst (download_single_image E st u) = TooLarge \<longleftrightarrow>
      content_length_too_large r = Some True"
    using assms by (simp add: dsi_outcome_TooLarge)
  have a: "fst (download_single_image E st u) = TooLarge \<longleftrightarrow>
           (\<exists>v n. headers_get r ''content-length'' = Some v \<and> py_int v = Some n
                  \<and> n > 10 * 1024 * 1024)"
    unfolding out by (rule content_length_too_large_True)
  have b: "fst (download_single_image E st u) = TooLarge \<longrightarrow>
              BodyRead \<notin> set (new_events st (snd (download_single_image E st u)))"
    using dsi_rejected_not_passes [of E st u] dsi_events_rejected [of E st u] by auto
  have c: "headers_get r ''content-length'' = None \<longrightarrow>
              content_length_too_large r = Some False
              \<and> fst (download_single_image E st u) \<noteq> TooLarge"
    unfolding out by (simp add: content_length_too_large_absent)
  have d: "\<forall>v. headers_get r ''content-length'' = Some v
                  \<and> py_int v = Some (10 * 1024 * 1024) \<longrightarrow>
                content_length_too_large r = Some False
                \<and> fst (download_single_image E st u) \<noteq> TooLarge"
    unfolding out using content_length_too_large_value [of r _ "10 * 1024 * 1024"] by auto
  have e: "\<forall>v. headers_get r ''content-length'' = Some v
                  \<and> py_int v = Some (10 * 1024 * 1024 + 1) \<longrightarrow>
                fst (download_single_image E st u) = TooLarge"
    unfolding out using content_length_too_large_value [of r _ "10 * 1024 * 1024 + 1"] by auto
  from a b c d e show ?thesis by blast
qed

text \<open>
  The headers \<^verbatim>\<open>10485761\<close> (rejected, body not read), \<^verbatim>\<open>10485760\<close> (not rejected), and no
  content-length header (not rejected).
\<close>

theorem size_limit_stage_witness:
  "fst (download_single_image (demo_env [sized_page ''10485761'']) empty_dir ''http://x/a.png'')
     = TooLarge
   \<and> BodyRead \<notin> set (new_events empty_dir (snd (download_single_image
         (demo_env [sized_page ''10485761'']) empty_dir ''http://x/a.png'')))
   \<and> fst (download_single_image (demo_env [sized_page ''10485760'']) empty_dir ''http://x/a.png'')
     \<noteq> TooLarge
   \<and> fst (download_single_image (demo_env [png_page ''http://x/a.png'' ''abc'']) empty_dir
         ''http://x/a.png'') \<noteq> TooLarge"
proof -
  have over: "py_int ''10485761'' = Some (10 * 1024 * 1024 + 1)"
    by (simp add: py_int_simps)
  have limit: "py_int ''10485760'' = Some (10 * 1024 * 1024)"
    by (simp add: py_int_simps)
  have none: "web (demo_env [png_page ''http://x/a.png'' ''abc'']) (clock empty_dir)
      ''http://x/a.png'' = Some (snd (png_page ''http://x/a.png'' ''abc''))"
    "\<not> raises_for_status (snd (png_page ''http://x/a.png'' ''abc''))"
    "headers_get (snd (png_page ''http://x/a.png'' ''abc'')) ''content-length'' = None"
    by (simp add: demo_env_def png_page_def, simp add: png_page_def page_def raises_for_status_def,
        code_simp)
  from over sized_page_length [of "''10485761''"]
    size_limit_stage [OF sized_page_web [of "''10485761''"] sized_page_status]
  have 1: "fst (download_single_image (demo_env [sized_page ''10485761'']) empty_dir
      ''http://x/a.png'') = TooLarge
    \<and> BodyRead \<notin> set (new_events empty_dir (snd (download_single_image
         (demo_env [sized_page ''10485761'']) empty_dir ''http://x/a.png'')))"
    by blast
  from limit sized_page_length [of "''10485760''"]
    size_limit_stage [OF sized_page_web [of "''10485760''"] sized_page_status]
  have 2: "fst (download_single_image (demo_env [sized_page ''10485760'']) empty_dir
      ''http://x/a.png'') \<noteq> TooLarge"
    by blast
  from none(3) size_limit_stage [OF none(1,2)]
  have 3: "fst (download_single_image (demo_env [png_page ''http://x/a.png'' ''abc'']) empty_dir
         ''http://x/a.png'') \<noteq> TooLarge"
    by blast
  from 1 2 3 show ?thesis by blast
qed

section \<open>A content length that is not a number\<close>

text \<open>
  Claim C9 as stated fails for the empty value: the header is present and is no decimal
  integer, but the empty string is falsy, \<^verbatim>\<open>int\<close> is never called, and the download goes
  on through every later stage and is accepted.
\<close>

theorem empty_content_length_counterexample:
  "headers_get (snd (sized_page '''')) ''content-length'' = Some ''''
   \<and> py_int '''' = None
   \<and> fst (download_single_image (demo_env [sized_page '''']) empty_dir ''http://x/a.png'')
       = Accepted ''Fetched_Images/a.png''"
proof -
  have "fst (download_single_image (demo_env [sized_page '''']) empty_dir ''http://x/a.png'')
       = Accepted ''Fetched_Images/a.png''"
    by code_simp
  with sized_page_length [of "''''"] show ?thesis by simp
qed

text \<open>
  Claim C9, amended. For a response that passed the status check and whose
  content-length header is present, not empty, and rejected by \<^verbatim>\<open>int\<close>, the download ends
  in the handler of \<^verbatim>\<open>Exception\<close>: it returns \<^verbatim>\<open>False\<close>, is not reported as \<open>TooLarge\<close>, adds
  the request and the report to the trace and nothing else, and leaves the hash set and
  the directory as they were.
\<close>

theorem malformed_content_length:
  assumes "web E (clock st) u = Some r" and "\<not> raises_for_status r"
    and "headers_get r ''content-length'' = Some v" and "v \<noteq> []" and "py_int v = None"
  shows "fst (download_single_image E st u) = ErrorOccurred
         \<and> \<not> returned (fst (download_single_image E st u))
         \<and> new_events st (snd (download_single_image E st u)) =
             [Connecting u, Reported ErrorOccurred]
         \<and> downloaded_hashes (snd (download_single_image E st u)) = downloaded_hashes st
         \<and> fs (snd (download_single_image E st u)) = fs st"
proof -
  from assms(3-5) have "content_length_too_large r = None"
    by (simp add: content_length_too_large_def)
  with assms(1,2)
  have "download_single_image E st u = report (connecting st u) ErrorOccurred"
    by (rule dsi_bad_length)
  then show ?thesis by simp
qed

text \<open>
  The header \<^verbatim>\<open>12abc\<close> ends the download in the handler of \<^verbatim>\<open>Exception\<close>; so do a
  number behind the separator 31, which \<^verbatim>\<open>int\<close> does not skip, and 4301 nines.
\<close>

theorem malformed_content_length_witness:
  "fst (download_single_image (demo_env [sized_page ''12abc'']) empty_dir ''http://x/a.png'')
     = ErrorOccurred
   \<and> new_events empty_dir (snd (download_single_image (demo_env [sized_page ''12abc''])
        empty_dir ''http://x/a.png''))
     = [Connecting ''http://x/a.png'', Reported ErrorOccurred]
   \<and> fst (download_single_image (demo_env [sized_page [CHR 0x1F, CHR ''3'']]) empty_dir
        ''http://x/a.png'') = ErrorOccurred
   \<and> fst (download_single_image (demo_env [sized_page (replicate 4301 CHR ''9'')]) empty_dir
        ''http://x/a.png'') = ErrorOccurred"
proof -
  have "py_int ''12abc'' = None" by (simp add: py_int_simps)
  from malformed_content_length [OF sized_page_web sized_page_status sized_page_length _ this]
  have 1: "fst (download_single_image (demo_env [sized_page ''12abc'']) empty_dir
        ''http://x/a.png'') = ErrorOccurred
    \<and> new_events empty_dir (snd (download_single_image (demo_env [sized_page ''12abc''])
        empty_dir ''http://x/a.png''))
     = [Connecting ''http://x/a.png'', Reported ErrorOccurred]"
    by simp
  have "py_int [CHR 0x1F, CHR ''3''] = None" by (simp add: py_int_simps)
  from malformed_content_length [OF sized_page_web sized_page_status sized_page_length _ this]
  have 2: "fst (download_single_image (demo_env [sized_page [CHR 0x1F, CHR ''3'']]) empty_dir
        ''http://x/a.png'') = ErrorOccurred"
    by simp
  have "int_max_str_digits < 4301" by (simp add: int_max_str_digits_def)
  then have long: "py_int (replicate 4301 CHR ''9'') = None" by (rule py_int_nines)
  have "(0::nat) < 4301" by simp
  then have ne: "replicate 4301 CHR ''9'' \<noteq> []" by (rule replicate_nonempty)
  from malformed_content_length [OF sized_page_web sized_page_status sized_page_length ne long]
  have 3: "fst (download_single_image (demo_env [sized_page (replicate 4301 CHR ''9'')])
        empty_dir ''http://x/a.png'') = ErrorOccurred"
    by blast
  from 1 2 3 show ?thesis by blast
qed

section \<open>The hash set changes with acceptance only\<close>

text \<open>
  Claim C10. When a download is accepted, the hash set afterwards is the one before plus
  the hash of the body that was read, which was not in it, and the write of the file is
  the last event before the report. On every other outcome (duplicate, rejected, failed)
  the hash set is the one before.
\<close>

theorem hash_added_only_on_accept:
  "(\<forall>p. fst (download_single_image E st u) = Accepted p \<longrightarrow>
        (\<exists>r c. web E (clock st) u = Some r \<and> content r = Some c
             \<and> md5 E c \<notin> downloaded_hashes st
             \<and> downloaded_hashes (snd (download_single_image E st u)) =
                 insert (md5 E c) (downloaded_hashes st)
             \<and> new_events st (snd (download_single_image E st u)) =
                 [Connecting u, BodyRead, FileWritten p c, Reported (Accepted p)]))
   \<and> ((\<forall>p. fst (download_single_image E st u) \<noteq> Accepted p) \<longrightarrow>
        downloaded_hashes (snd (download_single_image E st u)) = downloaded_hashes st)"
proof -
  have accepted: "\<exists>r c. web E (clock st) u = Some r \<and> content r = Some c
             \<and> md5 E c \<notin> downloaded_hashes st
             \<and> downloaded_hashes (snd (download_single_image E st u)) =
                 insert (md5 E c) (downloaded_hashes st)
             \<and> new_events st (snd (download_single_image E st u)) =
                 [Connecting u, BodyRead, FileWritten p c, Reported (Accepted p)]"
    if "fst (download_single_image E st u) = Accepted p" for p
  proof (cases rule: dsi_leaves [of E st u])
    case (written r c l)
    with that have "p = join download_dir (target_name E (fs st) u r)" by simp
    with written show ?thesis by simp
  qed (use that in simp_all)
  have others: "downloaded_hashes (snd (download_single_image E st u)) = downloaded_hashes st"
    if "\<forall>p. fst (download_single_image E st u) \<noteq> Accepted p"
  proof (cases rule: dsi_leaves [of E st u])
    case (written r c l)
    with that show ?thesis by simp
  qed simp_all
  from accepted others show ?thesis by blast
qed

text \<open>
  An accepted download into the empty collection leaves exactly the hash of its body; a
  download that fails on its content-length header leaves the empty set.
\<close>

theorem hash_added_only_on_accept_witness:
  "downloaded_hashes (snd (download_single_image (demo_env [png_page ''http://x/a.png'' ''abc''])
      empty_dir ''http://x/a.png'')) = {demo_md5 ''abc''}
   \<and> downloaded_hashes (snd (download_single_image (demo_env [sized_page ''12abc''])
      empty_dir ''http://x/a.png'')) = {}"
proof -
  let ?E = "demo_env [png_page ''http://x/a.png'' ''abc'']"
  let ?u = "''http://x/a.png''"
  have acc: "fst (download_single_image ?E empty_dir ?u) = Accepted ''Fetched_Images/a.png''"
    by code_simp
  have w: "web ?E (clock empty_dir) ?u = Some (snd (png_page ?u ''abc''))"
    by (simp add: demo_env_def png_page_def)
  have c: "content (snd (png_page ?u ''abc'')) = Some ''abc''"
    by (simp add: png_page_def page_def)
  have m: "md5 ?E = demo_md5" "downloaded_hashes empty_dir = {}"
    by (simp_all add: demo_env_def empty_dir_def)
  from acc w c hash_added_only_on_accept [of ?E empty_dir ?u]
  have 1: "downloaded_hashes (snd (download_single_image ?E empty_dir ?u))
      = insert (md5 ?E ''abc'') (downloaded_hashes empty_dir)"
    by auto
  have "py_int ''12abc'' = None" by (simp add: py_int_simps)
  from dsi_bad_length [OF sized_page_web sized_page_status]
    sized_page_length [of "''12abc''"] this
  have "fst (download_single_image (demo_env [sized_page ''12abc'']) empty_dir ?u) = ErrorOccurred"
    by (simp add: content_length_too_large_def)
  with hash_added_only_on_accept [of "demo_env [sized_page ''12abc'']" empty_dir ?u]
  have 2: "downloaded_hashes (snd (download_single_image (demo_env [sized_page ''12abc''])
      empty_dir ?u)) = downloaded_hashes empty_dir"
    by simp
  from 1 2 m show ?thesis by simp
qed

section \<open>Batch accounting\<close>

text \<open>The addresses requested and the outcomes reported in a stretch of the trace.\<close>

fun connects :: "event list \<Rightarrow> string list" where
  "connects [] = []"
| "connects (Connecting u # evs) = u # connects evs"
| "connects (e # evs) = connects evs"

fun reports :: "event list \<Rightarrow> outcome list" where
  "reports [] = []"
| "reports (Reported res # evs) = res # reports evs"
| "reports (e # evs) = reports evs"

fun is_accepted :: "outcome \<Rightarrow> bool" where
  "is_accepted (Accepted p) = True"
| "is_accepted res = False"

lemma connects_append [simp]: "connects (xs @ ys) = connects xs @ connects ys"
  by (induction xs rule: connects.induct) simp_all

lemma reports_append [simp]: "reports (xs @ ys) = reports xs @ reports ys"
  by (induction xs rule: reports.induct) simp_all

lemma returned_count:
  "length (filter returned rs) =
     length (filter is_accepted rs) + length (filter (\<lambda>res. res = Duplicate) rs)"
proof (induction rs)
  case Nil
  then show ?case by simp
next
  case (Cons res rs)
  then show ?case by (cases res) simp_all
qed

lemma dsi_trace:
  "\<exists>evs. trace (snd (download_single_image E st u)) = trace st @ evs
     \<and> connects evs = [u] \<and> reports evs = [fst (download_single_image E st u)]"
  by (cases rule: dsi_leaves [of E st u]) simp_all

lemma download_loop_trace:
  "\<exists>evs. trace (snd (download_loop E st n urls)) = trace st @ evs
     \<and> connects evs = filter (\<lambda>u. u \<noteq> []) (map strip urls)
     \<and> length (reports evs) = length (connects evs)
     \<and> fst (download_loop E st n urls) = n + length (filter returned (reports evs))"
proof (induction urls arbitrary: st n)
  case Nil
  then show ?case by simp
next
  case (Cons line urls)
  show ?case
  proof (cases "strip line = []")
    case True
    with Cons.IH [of st n] show ?thesis by simp
  next
    case False
    let ?res = "fst (download_single_image E st (strip line))"
    let ?st = "snd (download_single_image E st (strip line))"
    let ?n = "if returned ?res then n + 1 else n"
    obtain evs1 where 1: "trace ?st = trace st @ evs1" "connects evs1 = [strip line]"
      "reports evs1 = [?res]"
      using dsi_trace [of E st "strip line"] by blast
    obtain evs2 where 2: "trace (snd (download_loop E ?st ?n urls)) = trace ?st @ evs2"
      "connects evs2 = filter (\<lambda>u. u \<noteq> []) (map strip urls)"
      "length (reports evs2) = length (connects evs2)"
      "fst (download_loop E ?st ?n urls) = ?n + length (filter returned (reports evs2))"
      using Cons.IH [of ?st ?n] by blast
    have eq: "download_loop E st n (line # urls) = download_loop E ?st ?n urls"
      using False by (simp add: case_prod_beta)
    show ?thesis
      unfolding eq using 1 2 False by (intro exI [of _ "evs1 @ evs2"]) simp
  qed
qed

text \<open>
  Claim C5. \<^verbatim>\<open>download_multiple_images\<close> requests, in the order of the input, exactly the
  trimmed entries that are not blank; every request is followed through to its report,
  whatever the earlier outcomes were; and the number it returns is the number of accepted
  outcomes plus the number of duplicate outcomes among those reports.
\<close>

theorem batch_accounting:
  "connects (new_events st (snd (download_multiple_images E st urls))) =
     filter (\<lambda>u. u \<noteq> []) (map strip urls)
   \<and> length (reports (new_events st (snd (download_multiple_images E st urls)))) =
       length (filter (\<lambda>u. u \<noteq> []) (map strip urls))
   \<and> fst (download_multiple_images E st urls) =
       length (filter is_accepted
                 (reports (new_events st (snd (download_multiple_images E st urls)))))
       + length (filter (\<lambda>res. res = Duplicate)
                 (reports (new_events st (snd (download_multiple_images E st urls)))))"
proof -
  obtain evs where evs: "trace (snd (download_loop E st 0 urls)) = trace st @ evs"
    "connects evs = filter (\<lambda>u. u \<noteq> []) (map strip urls)"
    "length (reports evs) = length (connects evs)"
    "fst (download_loop E st 0 urls) = 0 + length (filter returned (reports evs))"
    using download_loop_trace [of E st 0 urls] by blast
  then have "new_events st (snd (download_multiple_images E st urls)) = evs"
    by (simp add: download_multiple_images_def)
  with evs show ?thesis
    by (simp add: download_multiple_images_def returned_count)
qed

text \<open>
  Five entries: a page of the wrong type, a blank entry, an image, an address that does
  not answer, and a second image with the bytes of the first. The call returns 2.
\<close>

definition three_pages :: "(string \<times> response) list" where
  "three_pages =
     [png_page ''http://x/a.png'' ''abc'',
      png_page ''http://x/b.png'' ''abc'',
      (''http://x/c.html'', page ''http://x/c.html'' [(''Content-Type'', ''text/html'')] ''<p>'')]"

theorem batch_accounting_witness:
  "fst (download_multiple_images (demo_env three_pages) empty_dir
         [''http://x/c.html'', ''  '', '' http://x/a.png'', ''http://x/nowhere'',
          ''http://x/b.png '']) = 2
   \<and> reports (new_events empty_dir (snd (download_multiple_images (demo_env three_pages) empty_dir
         [''http://x/c.html'', ''  '', '' http://x/a.png'', ''http://x/nowhere'',
          ''http://x/b.png ''])))
     = [UnsafeType, Accepted ''Fetched_Images/a.png'', ConnectionError, Duplicate]"
proof -
  let ?urls = "[''http://x/c.html'', ''  '', '' http://x/a.png'', ''http://x/nowhere'',
          ''http://x/b.png '']"
  have r: "reports (new_events empty_dir (snd (download_multiple_images (demo_env three_pages)
         empty_dir ?urls)))
     = [UnsafeType, Accepted ''Fetched_Images/a.png'', ConnectionError, Duplicate]"
    by code_simp
  with batch_accounting [of empty_dir "demo_env three_pages" ?urls] show ?thesis
    by simp
qed

section \<open>The startup scans first and creates afterwards\<close>

text \<open>The hashes of the regular files of a directory that can be read.\<close>

definition scanned_hashes :: "env \<Rightarrow> filesys \<Rightarrow> string set" where
  "scanned_hashes E fsys = md5 E ` {c. \<exists>name. (name, RegularFile c True) \<in> set (entries fsys)}"

lemma foldl_scan_entry:
  "foldl (scan_entry E) hs es =
     hs \<union> md5 E ` {c. \<exists>name. (name, RegularFile c True) \<in> set es}"
proof (induction es arbitrary: hs)
  case Nil
  then show ?case by simp
next
  case (Cons e es)
  obtain name ent where e: "e = (name, ent)" by (cases e)
  show ?case
  proof (cases ent)
    case (RegularFile c readable)
    with e Cons.IH [of "scan_entry E hs e"] show ?thesis by (cases readable) auto
  next
    case SubDirectory
    with e Cons.IH [of "scan_entry E hs e"] show ?thesis by auto
  qed
qed

lemma main_startup_result:
  "main_startup E fsys =
     (case root fsys of
        Absent \<Rightarrow>
          if mkdir_ok E
          then Inr \<lparr>downloaded_hashes = {}, fs = \<lparr>root = Directory True, entries = []\<rparr>,
                    clock = 0, trace = [MadeDirs]\<rparr>
          else Inl MakeDirsError
      | Directory listable \<Rightarrow>
          if listable
          then Inr \<lparr>downloaded_hashes = scanned_hashes E fsys, fs = fsys,
                    clock = 0, trace = [ListedDir, MadeDirs]\<rparr>
          else Inl ListDirError
      | NotADirectory \<Rightarrow> Inl ListDirError)"
  by (cases "root fsys")
    (simp_all add: main_startup_def UbuntuImageFetcher_def load_existing_hashes_def makedirs_def
      foldl_scan_entry scanned_hashes_def)

text \<open>
  A directory with a readable file, a file that cannot be read, and a subdirectory.
\<close>

definition old_files :: filesys where
  "old_files = \<lparr>root = Directory True,
                 entries = [(''a.png'', RegularFile ''abc'' True),
                            (''b.png'', RegularFile ''xyz'' False),
                            (''sub'', SubDirectory)]\<rparr>"

text \<open>
  Claim C8 as stated has the directory ensured before it is scanned. The code constructs
  the fetcher first and calls \<^verbatim>\<open>os.makedirs\<close> afterwards: on a directory that exists the
  listing comes first in the trace and the creation second, and a directory that is
  absent is created without ever being listed.
\<close>

theorem startup_order_counterexample:
  "main_startup (demo_env []) old_files =
     Inr \<lparr>downloaded_hashes = {demo_md5 ''abc''}, fs = old_files, clock = 0,
          trace = [ListedDir, MadeDirs]\<rparr>
   \<and> main_startup (demo_env []) \<lparr>root = Absent, entries = []\<rparr> =
     Inr \<lparr>downloaded_hashes = {}, fs = \<lparr>root = Directory True, entries = []\<rparr>, clock = 0,
          trace = [MadeDirs]\<rparr>"
  by (simp add: main_startup_def UbuntuImageFetcher_def load_existing_hashes_def makedirs_def
      old_files_def demo_env_def)

text \<open>
  Claim C8, amended. The startup first scans the directory, if it exists, and then
  ensures that it exists (a directory that is already there is left as it is). An absent
  directory is not scanned: it is created empty, with an empty hash set, and the startup
  fails if it cannot be created. On a directory that can be listed the startup never
  fails: the hash set holds the hashes of the regular files that can be read, and the
  files that cannot be read and the other entries are skipped. What is not a directory,
  or cannot be listed, makes the constructor fail. Whenever the startup returns, the
  directory exists.
\<close>

theorem startup_scans_then_creates:
  "(root fsys = Absent \<longrightarrow>
      main_startup E fsys =
        (if mkdir_ok E
         then Inr \<lparr>downloaded_hashes = {}, fs = \<lparr>root = Directory True, entries = []\<rparr>,
                   clock = 0, trace = [MadeDirs]\<rparr>
         else Inl MakeDirsError))
   \<and> (root fsys = Directory True \<longrightarrow>
        main_startup E fsys =
          Inr \<lparr>downloaded_hashes =
                 md5 E ` {c. \<exists>name. (name, RegularFile c True) \<in> set (entries fsys)},
               fs = fsys, clock = 0, trace = [ListedDir, MadeDirs]\<rparr>)
   \<and> (root fsys = Directory False \<or> root fsys = NotADirectory \<longrightarrow>
        main_startup E fsys = Inl ListDirError)
   \<and> (\<forall>st. main_startup E fsys = Inr st \<longrightarrow> (\<exists>l. root (fs st) = Directory l))"
proof (cases "root fsys")
  case Absent
  then have "main_startup E fsys =
        (if mkdir_ok E
         then Inr \<lparr>downloaded_hashes = {}, fs = \<lparr>root = Directory True, entries = []\<rparr>,
                   clock = 0, trace = [MadeDirs]\<rparr>
         else Inl MakeDirsError)"
    by (simp add: main_startup_result)
  with Absent show ?thesis by auto
next
  case (Directory listable)
  show ?thesis
  proof (cases listable)
    case True
    with Directory have "main_startup E fsys =
          Inr \<lparr>downloaded_hashes =
                 md5 E ` {c. \<exists>name. (name, RegularFile c True) \<in> set (entries fsys)},
               fs = fsys, clock = 0, trace = [ListedDir, MadeDirs]\<rparr>"
      by (simp add: main_startup_result scanned_hashes_def)
    with Directory True show ?thesis by auto
  next
    case False
    with Directory have "main_startup E fsys = Inl ListDirError"
      by (simp add: main_startup_result)
    with Directory False show ?thesis by simp
  qed
next
  case NotADirectory
  then have "main_startup E fsys = Inl ListDirError"
    by (simp add: main_startup_result)
  with NotADirectory show ?thesis by simp
qed

text \<open>
  The scan of the sample directory keeps the one readable file; an absent directory that
  cannot be created ends the startup, and so does a path that is no directory.
\<close>

theorem startup_scans_then_creates_witness:
  "main_startup (demo_env []) old_files =
     Inr \<lparr>downloaded_hashes = {demo_md5 ''abc''}, fs = old_files, clock = 0,
          trace = [ListedDir, MadeDirs]\<rparr>
   \<and> main_startup (demo_env []\<lparr>mkdir_ok := False\<rparr>) \<lparr>root = Absent, entries = []\<rparr> =
     Inl MakeDirsError
   \<and> main_startup (demo_env []) (old_files\<lparr>root := NotADirectory\<rparr>) = Inl ListDirError"
proof -
  have "{c. \<exists>name. (name, RegularFile c True) \<in> set (entries old_files)} = {''abc''}"
    by (auto simp: old_files_def)
  moreover have "root old_files = Directory True" "md5 (demo_env []) = demo_md5"
    by (simp_all add: old_files_def demo_env_def)
  ultimately have 1: "main_startup (demo_env []) old_files =
     Inr \<lparr>downloaded_hashes = {demo_md5 ''abc''}, fs = old_files, clock = 0,
          trace = [ListedDir, MadeDirs]\<rparr>"
    using startup_scans_then_creates [of old_files "demo_env []"] by simp
  have "root \<lparr>root = Absent, entries = []\<rparr> = Absent"
    "\<not> mkdir_ok (demo_env []\<lparr>mkdir_ok := False\<rparr>)"
    by simp_all
  then have 2: "main_startup (demo_env []\<lparr>mkdir_ok := False\<rparr>) \<lparr>root = Absent, entries = []\<rparr> =
     Inl MakeDirsError"
    using startup_scans_then_creates
      [of "\<lparr>root = Absent, entries = []\<rparr>" "demo_env []\<lparr>mkdir_ok := False\<rparr>"]
    by simp
  have "root (old_files\<lparr>root := NotADirectory\<rparr>) = NotADirectory" by simp
  then have 3: "main_startup (demo_env []) (old_files\<lparr>root := NotADirectory\<rparr>) = Inl ListDirError"
    using startup_scans_then_creates [of "old_files\<lparr>root := NotADirectory\<rparr>" "demo_env []"]
    by blast
  from 1 2 3 show ?thesis by blast
qed

section \<open>What every download keeps\<close>

lemma download_loop_preserves:
  assumes step: "\<And>st u. P st \<Longrightarrow> P (snd (download_single_image E st u))"
  shows "P st \<Longrightarrow> P (snd (download_loop E st n urls))"
proof (induction urls arbitrary: st n)
  case Nil
  then show ?case by simp
next
  case (Cons line urls)
  show ?case
  proof (cases "strip line = []")
    case True
    with Cons show ?thesis by simp
  next
    case False
    from Cons.prems have "P (snd (download_single_image E st (strip line)))" by (rule step)
    then have "P (snd (download_loop E (snd (download_single_image E st (strip line)))
        (if returned (fst (download_single_image E st (strip line))) then n + 1 else n) urls))"
      by (rule Cons.IH)
    with False show ?thesis by (simp add: case_prod_beta Let_def)
  qed
qed

lemma main_loop_preserves:
  assumes step: "\<And>st u. P st \<Longrightarrow> P (snd (download_single_image E st u))"
  shows "P st \<Longrightarrow> P (main_loop E st cs)"
proof (induction cs arbitrary: st)
  case Nil
  then show ?case by simp
next
  case (Cons choice cs)
  show ?case
  proof (cases choice)
    case (SingleImage line)
    show ?thesis
    proof (cases "strip line = []")
      case True
      with SingleImage Cons show ?thesis by simp
    next
      case False
      from Cons.prems have "P (snd (download_single_image E st (strip line)))" by (rule step)
      then have "P (main_loop E (snd (download_single_image E st (strip line))) cs)"
        by (rule Cons.IH)
      with SingleImage False show ?thesis by simp
    qed
  next
    case (MultipleImages lines)
    let ?urls = "takeWhile (\<lambda>u. u \<noteq> []) (map strip lines)"
    show ?thesis
    proof (cases "?urls = []")
      case True
      with MultipleImages Cons show ?thesis by simp
    next
      case False
      have "P (snd (download_loop E st 0 ?urls))"
        using step Cons.prems by (rule download_loop_preserves [where P = P])
      then have "P (main_loop E (snd (download_multiple_images E st ?urls)) cs)"
        unfolding download_multiple_images_def by (rule Cons.IH)
      with MultipleImages False show ?thesis by simp
    qed
  next
    case Exit
    with Cons.prems show ?thesis by simp
  next
    case InvalidChoice
    with Cons show ?thesis by simp
  qed
qed

text \<open>
  The two facts that every download keeps: the hash set is a given set plus the hashes of
  the bodies whose write is in the trace, and every such body is still in the file that
  was written for it.
\<close>

definition hashes_tracked :: "env \<Rightarrow> string set \<Rightarrow> fetcher \<Rightarrow> bool" where
  "hashes_tracked E H st =
     (downloaded_hashes st = H \<union> md5 E ` {c. \<exists>p. FileWritten p c \<in> set (trace st)})"

definition files_kept :: "fetcher \<Rightarrow> bool" where
  "files_kept st =
     ((\<exists>l. root (fs st) = Directory l) \<and>
      (\<forall>p c. FileWritten p c \<in> set (trace st) \<longrightarrow>
         (\<exists>name. p = join download_dir name
            \<and> map_of (entries (fs st)) name = Some (RegularFile c True))))"

lemma dsi_hashes_tracked:
  "hashes_tracked E H st \<Longrightarrow> hashes_tracked E H (snd (download_single_image E st u))"
  unfolding hashes_tracked_def
  by (cases rule: dsi_leaves [of E st u]) auto

lemma dsi_hashes_grow:
  "H \<subseteq> downloaded_hashes st \<Longrightarrow> H \<subseteq> downloaded_hashes (snd (download_single_image E st u))"
  by (cases rule: dsi_leaves [of E st u]) auto

lemma target_name_free: "\<not> exists_in fsys (target_name E fsys u r)"
  by (simp add: target_name_def Let_def unique_filename_free)

lemma put_file_simps [simp]:
  "root (put_file fsys name c) = root fsys"
  "map_of (entries (put_file fsys name c)) = (map_of (entries fsys))(name \<mapsto> RegularFile c True)"
  by (simp_all add: put_file_def update_conv')

lemma map_of_exists_in:
  "root fsys = Directory l \<Longrightarrow> map_of (entries fsys) name = Some e \<Longrightarrow> exists_in fsys name"
  by (auto simp: exists_in_def present_names_def dest: map_of_SomeD intro: rev_image_eqI)

lemma files_kept_put:
  assumes "files_kept st" and "\<not> exists_in (fs st) name"
    and "fs st' = put_file (fs st) name c'"
    and "set (trace st') \<subseteq> insert (FileWritten (join download_dir name) c') (set (trace st) \<union> X)"
    and "\<And>p c. FileWritten p c \<notin> X"
  shows "files_kept st'"
proof -
  from assms(1) obtain l where l: "root (fs st) = Directory l"
    by (auto simp: files_kept_def)
  have "\<exists>n. p = join download_dir n
          \<and> map_of (entries (fs st')) n = Some (RegularFile c True)"
    if w: "FileWritten p c \<in> set (trace st')" for p c
  proof (cases "FileWritten p c \<in> set (trace st)")
    case True
    with assms(1) obtain n where n: "p = join download_dir n"
      "map_of (entries (fs st)) n = Some (RegularFile c True)"
      by (auto simp: files_kept_def)
    with l have "exists_in (fs st) n" by (blast intro: map_of_exists_in)
    with assms(2) have "n \<noteq> name" by blast
    with n assms(3) show ?thesis by auto
  next
    case False
    with w assms(4,5) have "p = join download_dir name" "c = c'" by auto
    with assms(3) show ?thesis by auto
  qed
  with l assms(3) show ?thesis by (auto simp: files_kept_def)
qed


lemma files_kept_same:
  assumes "files_kept st" and "fs st' = fs st"
    and "set (trace st') \<subseteq> set (trace st) \<union> X" and "\<And>p c. FileWritten p c \<notin> X"
  shows "files_kept st'"
proof -
  have "FileWritten p c \<in> set (trace st)" if "FileWritten p c \<in> set (trace st')" for p c
    using that assms(3,4) by blast
  with assms(1,2) show ?thesis unfolding files_kept_def by metis
qed

lemma dsi_files_kept:
  assumes "files_kept st"
  shows "files_kept (snd (download_single_image E st u))"
proof -
  let ?X = "{Connecting u, BodyRead} \<union> range Reported"
  have X: "\<And>p c. FileWritten p c \<notin> ?X" by auto
  let ?name = "\<lambda>r. target_name E (fs st) u r"
  show ?thesis
  proof (cases rule: dsi_leaves [of E st u])
    case (write_fails r c part l)
    show ?thesis
    proof (rule files_kept_put [OF assms target_name_free [of "fs st" E u r] _ _ X])
      show "fs (snd (download_single_image E st u)) = put_file (fs st) (?name r) part"
        using write_fails by simp
      show "set (trace (snd (download_single_image E st u)))
          \<subseteq> insert (FileWritten (join download_dir (?name r)) part) (set (trace st) \<union> ?X)"
        using write_fails by auto
    qed
  next
    case (written r c l)
    show ?thesis
    proof (rule files_kept_put [OF assms target_name_free [of "fs st" E u r] _ _ X])
      show "fs (snd (download_single_image E st u)) = put_file (fs st) (?name r) c"
        using written by simp
      show "set (trace (snd (download_single_image E st u)))
          \<subseteq> insert (FileWritten (join download_dir (?name r)) c) (set (trace st) \<union> ?X)"
        using written by auto
    qed
  qed (rule files_kept_same [OF assms _ _ X], simp, auto)+
qed

lemma startup_invariants:
  assumes "main_startup E fsys = Inr st0"
  shows "files_kept st0" and "hashes_tracked E (downloaded_hashes st0) st0"
    and "downloaded_hashes st0 = (if root fsys = Absent then {} else scanned_hashes E fsys)"
proof -
  from assms have "(\<exists>l. root (fs st0) = Directory l) \<and> set (trace st0) \<subseteq> {ListedDir, MadeDirs}
      \<and> downloaded_hashes st0 = (if root fsys = Absent then {} else scanned_hashes E fsys)"
    unfolding main_startup_result
    by (cases "root fsys") (auto split: if_splits)
  then show "files_kept st0" and "hashes_tracked E (downloaded_hashes st0) st0"
    and "downloaded_hashes st0 = (if root fsys = Absent then {} else scanned_hashes E fsys)"
    by (auto simp: files_kept_def hashes_tracked_def)
qed

section \<open>The hash set over a run\<close>

text \<open>
  Claim C6. After the startup the hash set holds exactly the hashes of the regular files
  that the scan could read. After any sequence of menu choices it is that set plus the
  hashes of the bodies that accepted downloads have written, and every such body is
  still in the file that was written for it under the collection directory. Whatever
  choices follow, no hash leaves the set.
\<close>

theorem hash_index_invariant:
  assumes "main_startup E fsys = Inr st0"
  shows "downloaded_hashes st0 =
           (if root fsys = Absent then {}
            else md5 E ` {c. \<exists>name. (name, RegularFile c True) \<in> set (entries fsys)})
         \<and> downloaded_hashes (main_loop E st0 cs) =
             downloaded_hashes st0
             \<union> md5 E ` {c. \<exists>p. FileWritten p c \<in> set (trace (main_loop E st0 cs))}
         \<and> (\<forall>p c. FileWritten p c \<in> set (trace (main_loop E st0 cs)) \<longrightarrow>
               (\<exists>name. p = join download_dir name
                  \<and> map_of (entries (fs (main_loop E st0 cs))) name
                      = Some (RegularFile c True)))
         \<and> downloaded_hashes (main_loop E st0 cs)
             \<subseteq> downloaded_hashes (main_loop E (main_loop E st0 cs) cs')"
proof -
  note start = startup_invariants [OF assms]
  have a: "downloaded_hashes st0 =
           (if root fsys = Absent then {}
            else md5 E ` {c. \<exists>name. (name, RegularFile c True) \<in> set (entries fsys)})"
    using start(3) by (simp add: scanned_hashes_def)
  have "hashes_tracked E (downloaded_hashes st0) (main_loop E st0 cs)"
    using dsi_hashes_tracked start(2)
    by (rule main_loop_preserves [where P = "hashes_tracked E (downloaded_hashes st0)"])
  then have b: "downloaded_hashes (main_loop E st0 cs) =
             downloaded_hashes st0
             \<union> md5 E ` {c. \<exists>p. FileWritten p c \<in> set (trace (main_loop E st0 cs))}"
    by (simp add: hashes_tracked_def)
  have "files_kept (main_loop E st0 cs)"
    using dsi_files_kept start(1) by (rule main_loop_preserves [where P = files_kept])
  then have c: "\<forall>p c. FileWritten p c \<in> set (trace (main_loop E st0 cs)) \<longrightarrow>
               (\<exists>name. p = join download_dir name
                  \<and> map_of (entries (fs (main_loop E st0 cs))) name
                      = Some (RegularFile c True))"
    by (simp add: files_kept_def)
  have d: "downloaded_hashes (main_loop E st0 cs)
             \<subseteq> downloaded_hashes (main_loop E (main_loop E st0 cs) cs')"
    using dsi_hashes_grow subset_refl
    by (rule main_loop_preserves
          [where P = "\<lambda>s. downloaded_hashes (main_loop E st0 cs) \<subseteq> downloaded_hashes s"])
  from a b c d show ?thesis by blast
qed

text \<open>
  The fetcher after the startup on the sample directory; one new image fetched twice
  leaves the hash of the old file and the hash of the new one, and the new file on disk.
\<close>

definition old_start :: fetcher where
  "old_start = \<lparr>downloaded_hashes = {demo_md5 ''abc''}, fs = old_files, clock = 0,
                 trace = [ListedDir, MadeDirs]\<rparr>"

theorem hash_index_invariant_witness:
  "main_startup (demo_env [png_page ''http://x/new.png'' ''new'']) old_files = Inr old_start
   \<and> downloaded_hashes (main_loop (demo_env [png_page ''http://x/new.png'' ''new'']) old_start
        [SingleImage ''http://x/new.png'', MultipleImages [''http://x/new.png'', '''']])
      = {demo_md5 ''abc'', demo_md5 ''new''}
   \<and> map_of (entries (fs (main_loop (demo_env [png_page ''http://x/new.png'' ''new'']) old_start
        [SingleImage ''http://x/new.png'', MultipleImages [''http://x/new.png'', '''']])))
        ''new.png'' = Some (RegularFile ''new'' True)"
proof -
  let ?E = "demo_env [png_page ''http://x/new.png'' ''new'']"
  let ?cs = "[SingleImage ''http://x/new.png'', MultipleImages [''http://x/new.png'', '''']]"
  have s: "main_startup ?E old_files = Inr old_start"
    by (simp add: main_startup_def UbuntuImageFetcher_def load_existing_hashes_def makedirs_def
        old_files_def demo_env_def old_start_def)
  define fin where "fin = main_loop ?E old_start ?cs"
  have t: "trace fin =
      [ListedDir, MadeDirs, Connecting ''http://x/new.png'', BodyRead,
       FileWritten ''Fetched_Images/new.png'' ''new'',
       Reported (Accepted ''Fetched_Images/new.png''),
       Connecting ''http://x/new.png'', BodyRead, Reported Duplicate]"
    unfolding fin_def by code_simp
  have w: "{c. \<exists>p. FileWritten p c \<in> set (trace fin)} = {''new''}"
    unfolding t by auto
  have j: "join download_dir name = ''Fetched_Images/new.png'' \<longleftrightarrow> name = ''new.png''" for name
    by (auto simp: join_def download_dir_def)
  note inv = hash_index_invariant [OF s, of ?cs "[]", folded fin_def]
  from inv have "downloaded_hashes fin =
      downloaded_hashes old_start \<union> md5 ?E ` {c. \<exists>p. FileWritten p c \<in> set (trace fin)}"
    by blast
  then have a: "downloaded_hashes fin = {demo_md5 ''abc'', demo_md5 ''new''}"
    unfolding w by (auto simp: old_start_def demo_env_def)
  have "FileWritten ''Fetched_Images/new.png'' ''new'' \<in> set (trace fin)"
    unfolding t by simp
  with inv have "\<exists>name. ''Fetched_Images/new.png'' = join download_dir name
        \<and> map_of (entries (fs fin)) name = Some (RegularFile ''new'' True)"
    by blast
  with j have b: "map_of (entries (fs fin)) ''new.png'' = Some (RegularFile ''new'' True)"
    by metis
  from s a b show ?thesis unfolding fin_def by blast
qed

section \<open>Reachable states\<close>

text \<open>The states of a run: the result of the startup, and what downloads make of it.\<close>

inductive reachable :: "env \<Rightarrow> filesys \<Rightarrow> fetcher \<Rightarrow> bool" for E :: env and fsys :: filesys where
  start: "main_startup E fsys = Inr st0 \<Longrightarrow> reachable E fsys st0"
| step: "reachable E fsys st \<Longrightarrow> reachable E fsys (snd (download_single_image E st u))"

lemma main_loop_reachable: "reachable E fsys st \<Longrightarrow> reachable E fsys (main_loop E st cs)"
  using reachable.step by (rule main_loop_preserves [where P = "reachable E fsys"])

text \<open>No body is written twice.\<close>

definition writes_distinct :: "fetcher \<Rightarrow> bool" where
  "writes_distinct st =
     (\<forall>p p' c. FileWritten p c \<in> set (trace st) \<and> FileWritten p' c \<in> set (trace st)
        \<longrightarrow> p = p')"

lemma dsi_writes_distinct:
  assumes "writes_distinct st" and "hashes_tracked E H st"
  shows "writes_distinct (snd (download_single_image E st u))"
proof (cases rule: dsi_leaves [of E st u])
  case (written r c l)
  from assms(2) written(4) have "\<And>p. FileWritten p c \<notin> set (trace st)"
    by (auto simp: hashes_tracked_def)
  with assms(1) written(6) show ?thesis
    by (auto simp: writes_distinct_def)
qed (use assms(1) in \<open>auto simp: writes_distinct_def\<close>)

lemma reachable_invariants:
  assumes "reachable E fsys st"
  shows "hashes_tracked E (if root fsys = Absent then {} else scanned_hashes E fsys) st
         \<and> files_kept st \<and> writes_distinct st"
  using assms
proof (induction rule: reachable.induct)
  case (start st0)
  from startup_invariants [OF start] have "set (trace st0) \<subseteq> {ListedDir, MadeDirs}"
    using start unfolding main_startup_result
    by (cases "root fsys") (auto split: if_splits)
  then have "writes_distinct st0" by (auto simp: writes_distinct_def)
  with startup_invariants [OF start] show ?case by simp
next
  case (step st u)
  then have h: "hashes_tracked E (if root fsys = Absent then {} else scanned_hashes E fsys) st"
    and f: "files_kept st" and w: "writes_distinct st"
    by simp_all
  from h have "hashes_tracked E (if root fsys = Absent then {} else scanned_hashes E fsys)
      (snd (download_single_image E st u))"
    by (rule dsi_hashes_tracked)
  moreover from f have "files_kept (snd (download_single_image E st u))"
    by (rule dsi_files_kept)
  moreover from w h have "writes_distinct (snd (download_single_image E st u))"
    by (rule dsi_writes_distinct)
  ultimately show ?case by blast
qed

lemma join_inject [simp]: "join d a = join d b \<longleftrightarrow> a = b"
  by (simp add: join_def)

section \<open>Duplicates\<close>

text \<open>
  Claim C1 as stated covers every file present at startup. A file that cannot be read is
  skipped by the scan, so a download of the same bytes is accepted and written, and two
  files hold them.
\<close>

theorem unreadable_copy_counterexample:
  "main_startup (demo_env [png_page ''http://x/a.png'' ''one'']) (fs two_taken) = Inr two_taken
   \<and> fst (download_single_image (demo_env [png_page ''http://x/a.png'' ''one'']) two_taken
           ''http://x/a.png'') = Accepted ''Fetched_Images/a_2.png''
   \<and> entries (fs (snd (download_single_image (demo_env [png_page ''http://x/a.png'' ''one''])
           two_taken ''http://x/a.png'')))
       = [(''a.png'', RegularFile ''one'' False), (''a_1.png'', SubDirectory),
          (''a_2.png'', RegularFile ''one'' True)]"
proof -
  have "main_startup (demo_env [png_page ''http://x/a.png'' ''one'']) (fs two_taken)
      = Inr two_taken"
    by (simp add: main_startup_def UbuntuImageFetcher_def load_existing_hashes_def makedirs_def
        two_taken_def demo_env_def)
  moreover have "fst (download_single_image (demo_env [png_page ''http://x/a.png'' ''one''])
      two_taken ''http://x/a.png'') = Accepted ''Fetched_Images/a_2.png''"
    by code_simp
  moreover have "entries (fs (snd (download_single_image
      (demo_env [png_page ''http://x/a.png'' ''one'']) two_taken ''http://x/a.png'')))
       = [(''a.png'', RegularFile ''one'' False), (''a_1.png'', SubDirectory),
          (''a_2.png'', RegularFile ''one'' True)]"
    by code_simp
  ultimately show ?thesis by blast
qed

text \<open>
  Claim C1, amended. In a state reached from the startup by downloads, a download whose
  response passes the checks and whose body has the bytes of an earlier accepted
  download, or of a regular file that the startup scan could read, ends as a duplicate:
  it returns \<^verbatim>\<open>True\<close>, reads the body and writes nothing, and leaves the directory and the
  hash set as they were. If the bytes come from an earlier accepted download and every
  file of the directory that holds them was written by an accepted download, then
  exactly one file holds them afterwards.
\<close>

theorem dedup_idempotence:
  assumes "reachable E fsys st"
    and "web E (clock st) u = Some r" and "passes_checks E st u" and "content r = Some c"
    and "(\<exists>p. FileWritten p c \<in> set (trace st))
         \<or> (root fsys \<noteq> Absent \<and> (\<exists>name. (name, RegularFile c True) \<in> set (entries fsys)))"
  shows "fst (download_single_image E st u) = Duplicate
         \<and> returned (fst (download_single_image E st u))
         \<and> new_events st (snd (download_single_image E st u)) =
             [Connecting u, BodyRead, Reported Duplicate]
         \<and> fs (snd (download_single_image E st u)) = fs st
         \<and> downloaded_hashes (snd (download_single_image E st u)) = downloaded_hashes st
         \<and> ((\<exists>p. FileWritten p c \<in> set (trace st))
              \<and> (\<forall>name b. map_of (entries (fs st)) name = Some (RegularFile c b) \<longrightarrow>
                    FileWritten (join download_dir name) c \<in> set (trace st)) \<longrightarrow>
            (\<exists>!name. \<exists>b. map_of (entries (fs (snd (download_single_image E st u)))) name
                          = Some (RegularFile c b)))"
proof -
  note inv = reachable_invariants [OF assms(1)]
  from inv assms(5) have "md5 E c \<in> downloaded_hashes st"
    by (auto simp: hashes_tracked_def scanned_hashes_def)
  moreover from assms(2,3) have "\<not> raises_for_status r"
    "content_length_too_large r = Some False" "is_safe_file_type E r"
    by (simp_all add: passes_checks_def)
  ultimately
  have eq: "download_single_image E st u = report (reading_body (connecting st u)) Duplicate"
    using assms(2,4) by (simp add: dsi_duplicate)
  have one: "\<exists>!name. \<exists>b. map_of (entries (fs st)) name = Some (RegularFile c b)"
    if w: "FileWritten p c \<in> set (trace st)"
      and all: "\<forall>name b. map_of (entries (fs st)) name = Some (RegularFile c b) \<longrightarrow>
                    FileWritten (join download_dir name) c \<in> set (trace st)" for p
  proof -
    from inv w obtain name where name: "p = join download_dir name"
      "map_of (entries (fs st)) name = Some (RegularFile c True)"
      by (auto simp: files_kept_def)
    have "n = name" if "map_of (entries (fs st)) n = Some (RegularFile c b)" for n b
    proof -
      from all that have "FileWritten (join download_dir n) c \<in> set (trace st)" by blast
      with inv w have "join download_dir n = p" by (auto simp: writes_distinct_def)
      with name(1) show ?thesis by simp
    qed
    with name(2) show ?thesis by blast
  qed
  have same: "fs (snd (download_single_image E st u)) = fs st"
    by (simp add: eq)
  have first: "fst (download_single_image E st u) = Duplicate
         \<and> returned (fst (download_single_image E st u))
         \<and> new_events st (snd (download_single_image E st u)) =
             [Connecting u, BodyRead, Reported Duplicate]
         \<and> fs (snd (download_single_image E st u)) = fs st
         \<and> downloaded_hashes (snd (download_single_image E st u)) = downloaded_hashes st"
    by (simp add: eq)
  have last: "(\<exists>p. FileWritten p c \<in> set (trace st))
              \<and> (\<forall>name b. map_of (entries (fs st)) name = Some (RegularFile c b) \<longrightarrow>
                    FileWritten (join download_dir name) c \<in> set (trace st)) \<longrightarrow>
            (\<exists>!name. \<exists>b. map_of (entries (fs (snd (download_single_image E st u)))) name
                          = Some (RegularFile c b))"
    unfolding same using one by blast
  from first last show ?thesis by blast
qed

text \<open>
  On the sample directory: a page with the bytes of the readable old file is a duplicate;
  a new image is accepted, and fetched again it is a duplicate with one file on disk.
\<close>

definition two_pages :: "(string \<times> response) list" where
  "two_pages = [png_page ''http://x/new.png'' ''new'', png_page ''http://x/old.png'' ''abc'']"

theorem dedup_idempotence_witness:
  "fst (download_single_image (demo_env two_pages) old_start ''http://x/old.png'') = Duplicate
   \<and> fst (download_single_image (demo_env two_pages) old_start ''http://x/new.png'')
       = Accepted ''Fetched_Images/new.png''
   \<and> fst (download_single_image (demo_env two_pages)
            (snd (download_single_image (demo_env two_pages) old_start ''http://x/new.png''))
            ''http://x/new.png'') = Duplicate
   \<and> (\<exists>!name. \<exists>b. map_of (entries (fs (snd (download_single_image (demo_env two_pages)
            (snd (download_single_image (demo_env two_pages) old_start ''http://x/new.png''))
            ''http://x/new.png'')))) name = Some (RegularFile ''new'' b))"
proof -
  let ?E = "demo_env two_pages"
  let ?new = "''http://x/new.png''"
  let ?old = "''http://x/old.png''"
  have s: "main_startup ?E old_files = Inr old_start"
    by (simp add: main_startup_def UbuntuImageFetcher_def load_existing_hashes_def makedirs_def
        old_files_def demo_env_def old_start_def)
  then have r0: "reachable ?E old_files old_start" by (rule reachable.start)
  define st1 where "st1 = snd (download_single_image ?E old_start ?new)"
  from r0 have r1: "reachable ?E old_files st1"
    unfolding st1_def by (rule reachable.step)
  have acc: "fst (download_single_image ?E old_start ?new) = Accepted ''Fetched_Images/new.png''"
    by code_simp
  have old: "web ?E (clock old_start) ?old = Some (snd (png_page ?old ''abc''))"
    "passes_checks ?E old_start ?old" "content (snd (png_page ?old ''abc'')) = Some ''abc''"
    "root old_files \<noteq> Absent" "(''a.png'', RegularFile ''abc'' True) \<in> set (entries old_files)"
    by (code_simp, code_simp, code_simp, simp add: old_files_def, simp add: old_files_def)
  have new: "web ?E (clock st1) ?new = Some (snd (png_page ?new ''new''))"
    "passes_checks ?E st1 ?new" "content (snd (png_page ?new ''new'')) = Some ''new''"
    unfolding st1_def by (code_simp, code_simp, code_simp)
  have t: "trace st1 = [ListedDir, MadeDirs, Connecting ?new, BodyRead,
      FileWritten ''Fetched_Images/new.png'' ''new'', Reported (Accepted ''Fetched_Images/new.png'')]"
    unfolding st1_def by code_simp
  have e: "entries (fs st1) = [(''a.png'', RegularFile ''abc'' True),
      (''b.png'', RegularFile ''xyz'' False), (''sub'', SubDirectory),
      (''new.png'', RegularFile ''new'' True)]"
    unfolding st1_def by code_simp
  have w: "\<exists>p. FileWritten p ''new'' \<in> set (trace st1)"
    unfolding t by simp
  have only: "\<forall>name b. map_of (entries (fs st1)) name = Some (RegularFile ''new'' b) \<longrightarrow>
      FileWritten (join download_dir name) ''new'' \<in> set (trace st1)"
    unfolding t e by (auto simp: join_def download_dir_def split: if_splits)
  from old(4,5) dedup_idempotence [OF r0 old(1,2,3)]
  have 1: "fst (download_single_image ?E old_start ?old) = Duplicate"
    by blast
  from w only dedup_idempotence [OF r1 new]
  have 2: "fst (download_single_image ?E st1 ?new) = Duplicate
    \<and> (\<exists>!name. \<exists>b. map_of (entries (fs (snd (download_single_image ?E st1 ?new)))) name
          = Some (RegularFile ''new'' b))"
    by blast
  from 1 acc 2 show ?thesis unfolding st1_def by blast
qed

end
